theory Spec2Isabelle
  imports Main "HOL-Library.Log_Nat" "HOL-Library.Word" "HOL-Library.Char_ord"
    "HOL-Library.List_Lexorder" "HOL-Library.Multiset"
begin

section \<open>The account ledger of \<open>backend/backend.py\<close>\<close>

text \<open>
  The class \<open>BankBackend\<close> keeps two SQLite tables, \<open>customer\<close> and \<open>transactions\<close>, and
  offers \<open>create_account\<close>, \<open>authenticate\<close>, \<open>get_balance\<close>, \<open>deposit\<close>, \<open>withdraw\<close> and
  \<open>get_transaction_history\<close>. The database is modelled as a record of the two tables, each
  method as a function from the database (and its arguments) to its return value and the
  database it leaves behind. A method that ends in \<open>rollback\<close> leaves the database it
  started from.

  Both money columns are declared \<open>REAL\<close>, so the values the code reads, adds, compares and
  writes are Python floats (IEEE 754 binary64). They are modelled below by their exact
  rational values together with the rounding that every addition performs.

  The arguments have the types the schema gives their columns. Names, mobile numbers, emails
  and categories are strings. Account numbers and the limit are Python ints, amounts Python
  ints or floats (the example script passes the ints \<open>1000\<close> and \<open>200\<close>). Faults of the
  storage itself (a full disk, a locked file, the end of the 64-bit key range) are not
  modelled.
\<close>

subsection \<open>Python floats\<close>

text \<open>
  A float is a finite binary64 number, given by its exact value, one of the two infinities, or
  NaN. The two zeros of binary64 are one value here: \<open>==\<close>, \<open><\<close> and \<open><=\<close> do not tell them
  apart, and no other operation of the code looks at a sign.
\<close>

datatype pyfloat = Finite rat | PInf | NInf | NaN

definition pow2 :: "int \<Rightarrow> rat" where
  "pow2 k = (if 0 \<le> k then 2 ^ nat k else 1 / 2 ^ nat (- k))"

text \<open>\<open>ilog2 a\<close> is the binary exponent of a positive rational: \<open>2^k \<le> a < 2^(k+1)\<close>.\<close>

definition ilog2 :: "rat \<Rightarrow> int" where
  "ilog2 a = (if 1 \<le> a then bitlen \<lfloor>a\<rfloor> - 1 else - bitlen (\<lceil>1 / a\<rceil> - 1))"

definition round_half_even :: "rat \<Rightarrow> int" where
  "round_half_even q =
     (let f = \<lfloor>q\<rfloor>; d = q - of_int f
      in if d < 1 / 2 then f else if 1 / 2 < d then f + 1 else if even f then f else f + 1)"

text \<open>
  Rounding a positive rational to binary64, to nearest with ties to even: the significand has
  53 bits, the least exponent of the last place is \<open>-1074\<close> (below it the subnormal numbers
  lose precision), and a result of \<open>2^1024\<close> or more is infinity.
\<close>

definition round_mag :: "rat \<Rightarrow> pyfloat" where
  "round_mag a =
     (let e = max (ilog2 a - 52) (- 1074);
          m = round_half_even (a / pow2 e);
          v = of_int m * pow2 e
      in if 2 ^ 1024 \<le> v then PInf else Finite v)"

fun fneg :: "pyfloat \<Rightarrow> pyfloat" where
  "fneg (Finite r) = Finite (- r)"
| "fneg PInf = NInf"
| "fneg NInf = PInf"
| "fneg NaN = NaN"

definition fround :: "rat \<Rightarrow> pyfloat" where
  "fround q =
     (if q = 0 then Finite 0 else if 0 < q then round_mag q else fneg (round_mag (- q)))"

text \<open>Python's \<open>x + y\<close> and \<open>x - y\<close> on floats: they never raise.\<close>

fun fadd :: "pyfloat \<Rightarrow> pyfloat \<Rightarrow> pyfloat" where
  "fadd NaN y = NaN"
| "fadd x NaN = NaN"
| "fadd (Finite a) (Finite b) = fround (a + b)"
| "fadd PInf NInf = NaN"
| "fadd NInf PInf = NaN"
| "fadd PInf y = PInf"
| "fadd x PInf = PInf"
| "fadd NInf y = NInf"
| "fadd x NInf = NInf"

definition fsub :: "pyfloat \<Rightarrow> pyfloat \<Rightarrow> pyfloat" where
  "fsub x y = fadd x (fneg y)"

text \<open>Python's \<open>x < y\<close> and \<open>x <= y\<close> on floats: exact, and false whenever NaN is involved.\<close>

fun flt :: "pyfloat \<Rightarrow> pyfloat \<Rightarrow> bool" where
  "flt NaN y = False"
| "flt x NaN = False"
| "flt (Finite a) (Finite b) = (a < b)"
| "flt PInf y = False"
| "flt x NInf = False"
| "flt x PInf = True"
| "flt NInf y = True"

fun fle :: "pyfloat \<Rightarrow> pyfloat \<Rightarrow> bool" where
  "fle NaN y = False"
| "fle x NaN = False"
| "fle (Finite a) (Finite b) = (a \<le> b)"
| "fle NInf y = True"
| "fle x PInf = True"
| "fle PInf y = False"
| "fle x NInf = False"

text \<open>
  The finite numbers of binary64: a significand of at most 53 bits times a power of two whose
  exponent is in the range of the format.
\<close>

definition binary64 :: "rat \<Rightarrow> bool" where
  "binary64 v = (\<exists>m e. v = of_int m * pow2 e \<and> \<bar>m\<bar> < 2 ^ 53 \<and> - 1074 \<le> e \<and> e \<le> 971)"

subsection \<open>Amounts\<close>

text \<open>
  An amount is a Python int or float. The four things the code does with it: the test
  \<open>amount <= 0\<close>; the comparison \<open>result[0] < amount\<close>, which Python decides on the exact
  values also when \<open>amount\<close> is an int; the operand of \<open>result[0] + amount\<close> and
  \<open>result[0] - amount\<close>, for which an int is converted to the nearest float, raising
  \<open>OverflowError\<close> when there is none (the result \<open>None\<close> below); and the value bound to
  the \<open>INSERT\<close>, given further down.
\<close>

datatype pynum = IntNum int | FloatNum pyfloat

fun num_le_zero :: "pynum \<Rightarrow> bool" where
  "num_le_zero (IntNum i) = (i \<le> 0)"
| "num_le_zero (FloatNum x) = fle x (Finite 0)"

fun float_lt_num :: "pyfloat \<Rightarrow> pynum \<Rightarrow> bool" where
  "float_lt_num b (IntNum i) = flt b (Finite (of_int i))"
| "float_lt_num b (FloatNum x) = flt b x"

fun float_of_num :: "pynum \<Rightarrow> pyfloat option" where
  "float_of_num (IntNum i) =
     (case fround (of_int i) of Finite v \<Rightarrow> Some (Finite v) | _ \<Rightarrow> None)"
| "float_of_num (FloatNum x) = Some x"

subsection \<open>PINs and their digest\<close>

text \<open>
  A PIN is whatever the caller passes; the example script passes the int \<open>1234\<close>, a user
  interface passes a string. \<open>str_py\<close> is Python's \<open>str\<close> on the two.
\<close>

datatype pyval = PyInt int | PyStr string

fun str_nat :: "nat \<Rightarrow> string" where
  "str_nat n =
     (if n < 10 then [char_of (48 + n)] else str_nat (n div 10) @ [char_of (48 + n mod 10)])"

declare str_nat.simps [simp del]

fun str_py :: "pyval \<Rightarrow> string" where
  "str_py (PyInt i) = (if i < 0 then CHR ''-'' # str_nat (nat (- i)) else str_nat (nat i))"
| "str_py (PyStr s) = s"

text \<open>
  \<open>hashlib\<close> is not part of the repository. Every function that hashes takes the digest as its
  first argument \<open>H\<close>: it stands for \<open>lambda s: hashlib.sha256(s.encode()).hexdigest()\<close>. A
  SHA-256 hex digest is 64 hexadecimal digits, that is, a 256-bit word.
\<close>

type_synonym digest = "256 word"

type_synonym hashfn = "string \<Rightarrow> digest"

subsection \<open>The database\<close>

text \<open>
  A row of \<open>customer\<close>. \<open>balance\<close> is the only column that may hold \<open>NULL\<close> (it has a default
  but no \<open>NOT NULL\<close>), so it is an option.
\<close>

record customer_row =
  account_no :: int
  name :: string
  mobile_no :: string
  email :: string
  pin_hash :: digest
  action_type :: string
  balance :: "pyfloat option"

datatype tx_action = Credit | Debit

text \<open>A row of \<open>transactions\<close>; the field names carry the prefix \<open>tx_\<close>.\<close>

record transaction_row =
  tx_id :: int
  tx_account_no :: int
  tx_action_type :: tx_action
  tx_amount :: pyfloat
  tx_balance_after :: pyfloat
  tx_date_time :: string

text \<open>
  The tables hold their rows in insertion order. Both keys are \<open>AUTOINCREMENT\<close>, for which
  SQLite keeps the largest key ever used per table (table \<open>sqlite_sequence\<close>).
\<close>

record db =
  customer :: "customer_row list"
  customer_seq :: int
  transactions :: "transaction_row list"
  transactions_seq :: int

text \<open>\<open>init_db\<close> on a path where no file exists yet: both tables are created empty.\<close>

definition init_db :: db where
  "init_db = \<lparr>customer = [], customer_seq = 0, transactions = [], transactions_seq = 0\<rparr>"

text \<open>The key of a new row: one more than the largest key in the table or ever used.\<close>

definition next_rowid :: "int \<Rightarrow> int list \<Rightarrow> int" where
  "next_rowid seq ids = fold max ids seq + 1"

text \<open>
  Binding a Python float to a statement parameter: SQLite stores NaN as \<open>NULL\<close>, every other
  float as it is.
\<close>

definition bind_real :: "pyfloat \<Rightarrow> pyfloat option" where
  "bind_real v = (if v = NaN then None else Some v)"

text \<open>
  Binding a Python int: \<open>sqlite3\<close> raises \<open>OverflowError\<close> for an int outside the signed
  64-bit range of SQLite's \<open>INTEGER\<close>.
\<close>

datatype py_exception = OverflowError

definition in_int64 :: "int \<Rightarrow> bool" where
  "in_int64 i = (- (2 ^ 63) \<le> i \<and> i < 2 ^ 63)"

text \<open>
  The value an amount leaves in a \<open>REAL NOT NULL\<close> column: a float as above, an int of the
  64-bit range as the nearest float (the column's affinity converts it). \<open>None\<close> is an
  \<open>INSERT\<close> that raises: \<open>OverflowError\<close> for a larger int, \<open>IntegrityError\<close> for NaN.
\<close>

fun bind_num :: "pynum \<Rightarrow> pyfloat option" where
  "bind_num (IntNum i) = (if in_int64 i then Some (fround (of_int i)) else None)"
| "bind_num (FloatNum x) = bind_real x"

subsection \<open>The operations\<close>

text \<open>
  \<open>INSERT INTO customer\<close> raises \<open>IntegrityError\<close> when the \<open>CHECK\<close> on \<open>action_type\<close> or one of
  the two \<open>UNIQUE\<close> constraints fails; the handler rolls back and returns \<open>None\<close>.
\<close>

definition create_account ::
  "hashfn \<Rightarrow> db \<Rightarrow> string \<Rightarrow> string \<Rightarrow> string \<Rightarrow> pyval \<Rightarrow> string \<Rightarrow> int option \<times> db" where
  "create_account H s nm mob em pin atype =
     (let ph = H (str_py pin)
      in if atype \<notin> {''Savings'', ''Current''}
            \<or> mob \<in> set (map mobile_no (customer s))
            \<or> em \<in> set (map email (customer s))
         then (None, s)
         else
           let no = next_rowid (customer_seq s) (map account_no (customer s));
               row = \<lparr>account_no = no, name = nm, mobile_no = mob, email = em, pin_hash = ph,
                      action_type = atype, balance = Some (Finite 0)\<rparr>
           in (Some no, s\<lparr>customer := customer s @ [row], customer_seq := no\<rparr>))"

text \<open>\<open>SELECT ... FROM customer WHERE account_no = ?\<close> followed by \<open>fetchone()\<close>.\<close>

definition select_customer :: "db \<Rightarrow> int \<Rightarrow> customer_row option" where
  "select_customer s a = find (\<lambda>c. account_no c = a) (customer s)"


text \<open>
  \<open>get_balance\<close>, for an account number of the 64-bit range: \<open>None\<close> for an unknown account
  (and for a \<open>NULL\<close> balance).
\<close>

definition get_balance :: "db \<Rightarrow> int \<Rightarrow> pyfloat option" where
  "get_balance s a = (case select_customer s a of None \<Rightarrow> None | Some c \<Rightarrow> balance c)"

text \<open>\<open>UPDATE customer SET balance = ? WHERE account_no = ?\<close>.\<close>

definition update_balance :: "db \<Rightarrow> int \<Rightarrow> pyfloat \<Rightarrow> db" where
  "update_balance s a v =
     s\<lparr>customer := map (\<lambda>c. if account_no c = a then c\<lparr>balance := bind_real v\<rparr> else c)
                     (customer s)\<rparr>"

text \<open>
  \<open>INSERT INTO transactions\<close>: \<open>amount\<close> and \<open>balance_after\<close> are \<open>NOT NULL\<close>, so a NaN in
  either raises \<open>IntegrityError\<close>, and an int amount outside the 64-bit range raises
  \<open>OverflowError\<close> (the result \<open>None\<close>). Foreign keys are not enforced: the code never
  switches them on.
\<close>

definition insert_transaction ::
  "db \<Rightarrow> int \<Rightarrow> tx_action \<Rightarrow> pynum \<Rightarrow> pyfloat \<Rightarrow> string \<Rightarrow> db option" where
  "insert_transaction s a act amount new_balance date_time =
     (case (bind_num amount, bind_real new_balance) of
        (Some x, Some y) \<Rightarrow>
          let no = next_rowid (transactions_seq s) (map tx_id (transactions s));
              row = \<lparr>tx_id = no, tx_account_no = a, tx_action_type = act, tx_amount = x,
                     tx_balance_after = y, tx_date_time = date_time\<rparr>
          in Some (s\<lparr>transactions := transactions s @ [row], transactions_seq := no\<rparr>)
      | _ \<Rightarrow> None)"

text \<open>
  \<open>deposit\<close> and \<open>withdraw\<close> take the reading of \<open>datetime.now().isoformat()\<close> as the argument
  \<open>date_time\<close>. Both return \<open>None\<close> in three places: where the amount is \<open><= 0\<close>, before
  anything else is done; where the \<open>SELECT\<close> finds no row (in \<open>withdraw\<close> the same \<open>return\<close>
  also serves \<open>result[0] < amount\<close>); and in the handler, which catches every exception raised
  inside the \<open>try\<close> and rolls back. The exceptions are the \<open>OverflowError\<close> of an account
  number or an int amount that cannot be bound or converted, the \<open>TypeError\<close> of a \<open>NULL\<close>
  balance in \<open>result[0] + amount\<close> or \<open>result[0] < amount\<close>, and the \<open>IntegrityError\<close> of a
  NaN. \<open>deposit_run\<close> and \<open>withdraw_run\<close> are the two bodies with these places told apart;
  the methods themselves return \<open>None\<close> at each of them.
\<close>

datatype refusal = Amount_Not_Positive | No_Account_Row | Balance_Below_Amount | Caught_Exception

definition deposit_run :: "db \<Rightarrow> string \<Rightarrow> int \<Rightarrow> pynum \<Rightarrow> (refusal + pyfloat) \<times> db" where
  "deposit_run s date_time a amount =
     (if num_le_zero amount then (Inl Amount_Not_Positive, s)
      else if \<not> in_int64 a then (Inl Caught_Exception, s)
      else
        (case select_customer s a of
           None \<Rightarrow> (Inl No_Account_Row, s)
         | Some c \<Rightarrow>
            (case balance c of
               None \<Rightarrow> (Inl Caught_Exception, s)
             | Some b \<Rightarrow>
                (case float_of_num amount of
                   None \<Rightarrow> (Inl Caught_Exception, s)
                 | Some x \<Rightarrow>
                     let new_balance = fadd b x;
                         s1 = update_balance s a new_balance
                     in (case insert_transaction s1 a Credit amount new_balance date_time of
                           None \<Rightarrow> (Inl Caught_Exception, s)
                         | Some s2 \<Rightarrow> (Inr new_balance, s2))))))"

definition withdraw_run :: "db \<Rightarrow> string \<Rightarrow> int \<Rightarrow> pynum \<Rightarrow> (refusal + pyfloat) \<times> db" where
  "withdraw_run s date_time a amount =
     (if num_le_zero amount then (Inl Amount_Not_Positive, s)
      else if \<not> in_int64 a then (Inl Caught_Exception, s)
      else
        (case select_customer s a of
           None \<Rightarrow> (Inl No_Account_Row, s)
         | Some c \<Rightarrow>
            (case balance c of
               None \<Rightarrow> (Inl Caught_Exception, s)
             | Some b \<Rightarrow>
                 if float_lt_num b amount then (Inl Balance_Below_Amount, s)
                 else
                   (case float_of_num amount of
                      None \<Rightarrow> (Inl Caught_Exception, s)
                    | Some x \<Rightarrow>
                        let new_balance = fsub b x;
                            s1 = update_balance s a new_balance
                        in (case insert_transaction s1 a Debit amount new_balance date_time of
                              None \<Rightarrow> (Inl Caught_Exception, s)
                            | Some s2 \<Rightarrow> (Inr new_balance, s2))))))"

text \<open>What the caller receives: \<open>None\<close> for every refusal, the new balance otherwise.\<close>

definition returned :: "refusal + pyfloat \<Rightarrow> pyfloat option" where
  "returned r = (case r of Inl f \<Rightarrow> None | Inr v \<Rightarrow> Some v)"

definition deposit :: "db \<Rightarrow> string \<Rightarrow> int \<Rightarrow> pynum \<Rightarrow> pyfloat option \<times> db" where
  "deposit s date_time a amount =
     (case deposit_run s date_time a amount of (r, s') \<Rightarrow> (returned r, s'))"

definition withdraw :: "db \<Rightarrow> string \<Rightarrow> int \<Rightarrow> pynum \<Rightarrow> pyfloat option \<times> db" where
  "withdraw s date_time a amount =
     (case withdraw_run s date_time a amount of (r, s') \<Rightarrow> (returned r, s'))"

text \<open>
  A row of the history as the method returns it: the dict has the five keys \<open>id\<close>,
  \<open>action_type\<close>, \<open>amount\<close>, \<open>balance_after\<close> and \<open>date_time\<close>, not the account number.
\<close>

record history_entry =
  h_id :: int
  h_action_type :: tx_action
  h_amount :: pyfloat
  h_balance_after :: pyfloat
  h_date_time :: string

definition history_of :: "transaction_row \<Rightarrow> history_entry" where
  "history_of t =
     \<lparr>h_id = tx_id t, h_action_type = tx_action_type t, h_amount = tx_amount t,
      h_balance_after = tx_balance_after t, h_date_time = tx_date_time t\<rparr>"

text \<open>
  \<open>ORDER BY date_time DESC\<close> compares the ISO strings as text, byte by byte. SQLite's sorter
  is stable: rows with equal \<open>date_time\<close> stay in the order of the table, the earlier row
  first.
\<close>

definition order_by_date_time_desc :: "transaction_row list \<Rightarrow> transaction_row list" where
  "order_by_date_time_desc rows = rev (sort_key tx_date_time (rev rows))"

text \<open>\<open>LIMIT n\<close>: in SQLite a negative \<open>n\<close> means no limit.\<close>

definition sql_limit :: "int \<Rightarrow> 'a list \<Rightarrow> 'a list" where
  "sql_limit n rows = (if n < 0 then rows else take (nat n) rows)"

text \<open>
  The parameter \<open>limit=10\<close>: \<open>None\<close> is a call that leaves it out. The method has no \<open>try\<close>:
  the \<open>OverflowError\<close> of an account number or a limit that cannot be bound leaves it.
\<close>

definition get_transaction_history ::
  "db \<Rightarrow> int \<Rightarrow> int option \<Rightarrow> py_exception + history_entry list" where
  "get_transaction_history s a limit =
     (let n = (case limit of None \<Rightarrow> 10 | Some l \<Rightarrow> l);
          rows = filter (\<lambda>t. tx_account_no t = a) (transactions s)
      in if \<not> in_int64 a \<or> \<not> in_int64 n then Inl OverflowError
         else Inr (map history_of (sql_limit n (order_by_date_time_desc rows))))"

text \<open>
  The database a deposit or withdrawal commits: the balance of account \<open>a\<close> is \<open>nb\<close>, and
  one record with the amount \<open>x\<close> (as the column holds it) is appended to the log. Used to
  state what the two methods do when they succeed.
\<close>

definition committed :: "db \<Rightarrow> int \<Rightarrow> tx_action \<Rightarrow> pyfloat \<Rightarrow> pyfloat \<Rightarrow> string \<Rightarrow> db" where
  "committed s a act x nb date_time =
     s\<lparr>customer := map (\<lambda>c. if account_no c = a then c\<lparr>balance := Some nb\<rparr> else c)
                     (customer s),
       transactions := transactions s @
         [\<lparr>tx_id = next_rowid (transactions_seq s) (map tx_id (transactions s)),
           tx_account_no = a, tx_action_type = act, tx_amount = x, tx_balance_after = nb,
           tx_date_time = date_time\<rparr>],
       transactions_seq := next_rowid (transactions_seq s) (map tx_id (transactions s))\<rparr>"

subsection \<open>Runs of the system\<close>

text \<open>
  \<open>steps H s t\<close>: the database \<open>t\<close> is what some sequence of calls of the three writing
  methods leaves of \<open>s\<close>. The reading methods leave the database as it is. A database is
  reachable when such a sequence leads to it from the empty database of \<open>init_db\<close>.
\<close>

inductive steps :: "hashfn \<Rightarrow> db \<Rightarrow> db \<Rightarrow> bool" for H :: hashfn and s :: db where
  steps_refl: "steps H s s"
| steps_create: "steps H s t \<Longrightarrow> steps H s (snd (create_account H t nm mob em pin atype))"
| steps_deposit: "steps H s t \<Longrightarrow> steps H s (snd (deposit t date_time a amount))"
| steps_withdraw: "steps H s t \<Longrightarrow> steps H s (snd (withdraw t date_time a amount))"

definition reachable :: "hashfn \<Rightarrow> db \<Rightarrow> bool" where
  "reachable H s = steps H init_db s"

subsection \<open>Replaying the log\<close>

text \<open>
  The records of one account in creation order (by their key), and the balance that results
  from applying them one after the other to \<open>0.00\<close> with the additions and subtractions of
  the code.
\<close>

definition account_log :: "db \<Rightarrow> int \<Rightarrow> transaction_row list" where
  "account_log s a = filter (\<lambda>t. tx_account_no t = a) (sort_key tx_id (transactions s))"

definition apply_tx :: "pyfloat \<Rightarrow> transaction_row \<Rightarrow> pyfloat" where
  "apply_tx b t =
     (case tx_action_type t of
        Credit \<Rightarrow> fadd b (tx_amount t)
      | Debit \<Rightarrow> fsub b (tx_amount t))"

definition replay :: "transaction_row list \<Rightarrow> pyfloat" where
  "replay txs = foldl apply_tx (Finite 0) txs"

text \<open>
  The conservation property as the specification words it: the sum of the credited amounts
  minus the sum of the debited amounts, in exact arithmetic (defined when all amounts are
  finite).
\<close>

fun add_exact :: "pyfloat \<Rightarrow> rat option \<Rightarrow> rat option" where
  "add_exact (Finite r) (Some t) = Some (r + t)"
| "add_exact x y = None"

definition exact_sum :: "pyfloat list \<Rightarrow> rat option" where
  "exact_sum xs = foldr add_exact xs (Some 0)"

definition amounts_of :: "tx_action \<Rightarrow> transaction_row list \<Rightarrow> pyfloat list" where
  "amounts_of act txs = map tx_amount (filter (\<lambda>t. tx_action_type t = act) txs)"

definition conservation_total :: "transaction_row list \<Rightarrow> rat option" where
  "conservation_total txs =
     (case (exact_sum (amounts_of Credit txs), exact_sum (amounts_of Debit txs)) of
        (Some c, Some d) \<Rightarrow> Some (c - d)
      | _ \<Rightarrow> None)"

text \<open>The same difference of sums, each sum taken in creation order with the float addition.\<close>

definition float_total :: "transaction_row list \<Rightarrow> pyfloat" where
  "float_total txs =
     fsub (foldl fadd (Finite 0) (amounts_of Credit txs))
          (foldl fadd (Finite 0) (amounts_of Debit txs))"

subsection \<open>Invariants\<close>

text \<open>Every account has a balance, and it is not negative (nor NaN).\<close>

definition balances_nonneg :: "db \<Rightarrow> bool" where
  "balances_nonneg s = (\<forall>c\<in>set (customer s). \<exists>b. balance c = Some b \<and> fle (Finite 0) b)"

text \<open>Every finite balance is a binary64 number.\<close>

definition balances_binary64 :: "db \<Rightarrow> bool" where
  "balances_binary64 s = (\<forall>c\<in>set (customer s). \<forall>v. balance c = Some (Finite v) \<longrightarrow> binary64 v)"

text \<open>
  The keys of both tables are distinct, those of the log grow along it, and every record of
  the log belongs to an account.
\<close>

definition keys_ok :: "db \<Rightarrow> bool" where
  "keys_ok s =
     (distinct (map account_no (customer s)) \<and>
      sorted_wrt (<) (map tx_id (transactions s)) \<and>
      (\<forall>t\<in>set (transactions s). tx_account_no t \<in> account_no ` set (customer s)))"

text \<open>The balance of every account is what replaying its records gives.\<close>

definition balances_replayed :: "db \<Rightarrow> bool" where
  "balances_replayed s =
     (\<forall>c\<in>set (customer s).
        balance c = Some (replay (filter (\<lambda>t. tx_account_no t = account_no c) (transactions s))))"

subsection \<open>Example runs\<close>

text \<open>
  The run of the example script at the end of the file, with a stand-in for the digest (no
  property below depends on which function it is): an account is opened with the PIN
  \<open>1234\<close>, \<open>1000\<close> is deposited and \<open>200\<close> withdrawn.
\<close>

definition example_digest :: hashfn where
  "example_digest p = of_nat (length p)"

definition db_opened :: db where
  "db_opened =
     snd (create_account example_digest init_db ''John Doe'' ''1234567890''
            ''john@example.com'' (PyInt 1234) ''Savings'')"

definition db_deposited :: db where
  "db_deposited = snd (deposit db_opened ''2024-01-01T10:00:00'' 1 (IntNum 1000))"

definition db_withdrawn :: db where
  "db_withdrawn = snd (withdraw db_deposited ''2024-01-01T10:00:01.500000'' 1 (IntNum 200))"

text \<open>
  Further runs on the same account: deposits of \<open>1e16\<close> and \<open>1.0\<close>, then a withdrawal of
  \<open>1e16\<close> and another deposit of \<open>1.0\<close>; and deposits of \<open>0.1\<close> and \<open>0.2\<close>.
\<close>

definition db_1e16 :: db where
  "db_1e16 = snd (deposit db_opened ''2024-01-01T10:00:00'' 1 (FloatNum (Finite (10 ^ 16))))"

definition db_large :: db where
  "db_large = snd (deposit db_1e16 ''2024-01-01T10:00:01'' 1 (FloatNum (Finite 1)))"

definition db_large_spent :: db where
  "db_large_spent =
     snd (deposit (snd (withdraw db_large ''2024-01-01T10:00:02'' 1 (FloatNum (Finite (10 ^ 16)))))
            ''2024-01-01T10:00:03'' 1 (FloatNum (Finite 1)))"

definition db_tenths :: db where
  "db_tenths =
     snd (deposit (snd (deposit db_opened ''2024-01-01T10:00:00'' 1 (FloatNum (fround (1 / 10)))))
            ''2024-01-01T10:00:01'' 1 (FloatNum (fround (2 / 10))))"

section \<open>Properties of the model\<close>

subsection \<open>Rounding keeps the sign\<close>

lemma pow2_pos: "0 < pow2 k"
  by (simp add: pow2_def)

lemma round_half_even_nonneg: "0 \<le> q \<Longrightarrow> 0 \<le> round_half_even q"
  by (auto simp: round_half_even_def Let_def)

lemma round_mag_nonneg: "0 < a \<Longrightarrow> fle (Finite 0) (round_mag a)"
proof -
  assume a: "0 < a"
  define e where "e = max (ilog2 a - 52) (- 1074)"
  have "0 \<le> a / pow2 e" using a pow2_pos [of e] by simp
  then have "0 \<le> round_half_even (a / pow2 e)" by (rule round_half_even_nonneg)
  then have "0 \<le> rat_of_int (round_half_even (a / pow2 e)) * pow2 e"
    using pow2_pos [of e] by simp
  then show ?thesis
    by (simp add: round_mag_def Let_def e_def)
qed

lemma fround_nonneg: "0 \<le> q \<Longrightarrow> fle (Finite 0) (fround q)"
  by (simp add: fround_def round_mag_nonneg)

lemma fle_zero_cases: "fle (Finite 0) b \<longleftrightarrow> b = PInf \<or> (\<exists>r. 0 \<le> r \<and> b = Finite r)"
  by (cases b) auto

lemma positive_cases: "\<not> fle x (Finite 0) \<Longrightarrow> x \<noteq> NaN \<Longrightarrow> x = PInf \<or> (\<exists>r. 0 < r \<and> x = Finite r)"
  by (cases x) auto

lemma fadd_nonneg:
  "fle (Finite 0) b \<Longrightarrow> \<not> fle x (Finite 0) \<Longrightarrow> x \<noteq> NaN \<Longrightarrow> fle (Finite 0) (fadd b x)"
  by (cases b; cases x) (auto simp: fround_nonneg)

lemma fsub_nonneg:
  "fle (Finite 0) b \<Longrightarrow> \<not> flt b x \<Longrightarrow> \<not> fle x (Finite 0) \<Longrightarrow> fsub b x \<noteq> NaN
     \<Longrightarrow> fle (Finite 0) (fsub b x)"
  by (cases b; cases x) (auto simp: fsub_def fround_nonneg)

lemma fle_not_NaN: "fle (Finite 0) b \<Longrightarrow> b \<noteq> NaN"
  by (cases b) auto

subsection \<open>The rounding is to 53 bits\<close>

lemma round_half_even_error: "\<bar>of_int (round_half_even q) - q\<bar> \<le> 1 / 2"
proof -
  have "of_int \<lfloor>q\<rfloor> \<le> q" and "q < of_int \<lfloor>q\<rfloor> + 1" by linarith+
  then show ?thesis by (auto simp: round_half_even_def Let_def)
qed

lemma pow2_nonneg_exp: "0 \<le> k \<Longrightarrow> pow2 k = 2 ^ nat k"
  by (simp add: pow2_def)

lemma pow2_neg_exp: "0 \<le> k \<Longrightarrow> pow2 (- k) = 1 / 2 ^ nat k"
  by (cases "k = 0") (simp_all add: pow2_def)

lemma pow2_Suc: "pow2 (k + 1) = 2 * pow2 k"
proof (cases "0 \<le> k")
  case True
  then show ?thesis by (simp add: pow2_def nat_add_distrib)
next
  case False
  then have "nat (- k) = Suc (nat (- (k + 1)))" by simp
  then have "(2::rat) ^ nat (- k) = 2 * 2 ^ nat (- (k + 1))" by simp
  with False show ?thesis by (cases "k + 1 = 0") (simp_all add: pow2_def)
qed

lemma pow2_add_nat: "pow2 (k + int n) = 2 ^ n * pow2 k"
proof (induction n)
  case 0
  then show ?case by simp
next
  case (Suc n)
  have "k + int (Suc n) = (k + int n) + 1" by simp
  then have "pow2 (k + int (Suc n)) = pow2 ((k + int n) + 1)" by (simp only:)
  also have "\<dots> = 2 * pow2 (k + int n)" by (rule pow2_Suc)
  finally show ?case by (simp add: Suc.IH)
qed

lemma pow2_mono: "j \<le> k \<Longrightarrow> pow2 j \<le> pow2 k"
proof -
  assume "j \<le> k"
  then obtain n where "k = j + int n" using zle_iff_zadd by blast
  then have "pow2 k = 2 ^ n * pow2 j" by (simp add: pow2_add_nat)
  moreover have "(1::rat) \<le> 2 ^ n" by simp
  ultimately show ?thesis using pow2_pos [of j] by (simp add: mult_le_cancel_right1)
qed

lemma ilog2_bounds:
  assumes "0 < a"
  shows "pow2 (ilog2 a) \<le> a \<and> a < pow2 (ilog2 a + 1)"
proof (cases "1 \<le> a")
  case True
  define n where "n = \<lfloor>a\<rfloor>"
  from True have n: "0 < n" by (simp add: n_def)
  then have b1: "1 \<le> bitlen n" by (simp add: bitlen_alt_def)
  from bitlen_bounds [OF n] have lo: "2 ^ nat (bitlen n - 1) \<le> n" and hi: "n < 2 ^ nat (bitlen n)"
    by simp_all
  have il: "ilog2 a = bitlen n - 1" using True by (simp add: ilog2_def n_def)
  have "pow2 (ilog2 a) = of_int (2 ^ nat (bitlen n - 1))"
    using b1 by (simp add: il pow2_nonneg_exp)
  also have "\<dots> \<le> of_int n" using lo by (simp only: of_int_le_iff)
  also have "\<dots> \<le> a" by (simp add: n_def)
  finally have 1: "pow2 (ilog2 a) \<le> a" .
  from hi have "n + 1 \<le> 2 ^ nat (bitlen n)" by simp
  then have "(of_int (n + 1) :: rat) \<le> of_int (2 ^ nat (bitlen n))" by (simp only: of_int_le_iff)
  moreover have "a < of_int (n + 1)" unfolding n_def by linarith
  ultimately have "a < 2 ^ nat (bitlen n)" by simp
  moreover have "pow2 (ilog2 a + 1) = 2 ^ nat (bitlen n)"
    using b1 by (simp add: il pow2_nonneg_exp)
  ultimately show ?thesis using 1 by simp
next
  case False
  define c where "c = \<lceil>1 / a\<rceil>"
  define k where "k = bitlen (c - 1)"
  from False assms have x: "1 < 1 / a" by simp
  then have c: "1 < c" by (simp add: c_def less_ceiling_iff)
  then have c1: "0 < c - 1" by simp
  then have k1: "1 \<le> k" by (simp add: k_def bitlen_alt_def)
  from bitlen_bounds [OF c1] have lo: "2 ^ nat (k - 1) \<le> c - 1" and hi: "c - 1 < 2 ^ nat k"
    by (simp_all add: k_def)
  have il: "ilog2 a = - k" using False by (simp add: ilog2_def c_def k_def)
  from hi have "c \<le> 2 ^ nat k" by simp
  then have "(of_int c :: rat) \<le> 2 ^ nat k"
    using of_int_le_iff [of c "2 ^ nat k", where ?'a = rat] by simp
  moreover have "1 / a \<le> of_int c" by (simp add: c_def)
  ultimately have "1 / a \<le> 2 ^ nat k" by linarith
  then have "1 \<le> 2 ^ nat k * a" using assms by (simp add: pos_divide_le_eq)
  then have "1 / 2 ^ nat k \<le> a" by (simp add: pos_divide_le_eq mult.commute)
  then have 1: "pow2 (ilog2 a) \<le> a" using k1 by (simp add: il pow2_neg_exp)
  have "of_int (c - 1) < 1 / a" unfolding c_def by linarith
  moreover from lo have "(2 ^ nat (k - 1) :: rat) \<le> of_int (c - 1)"
    using of_int_le_iff [of "2 ^ nat (k - 1)" "c - 1", where ?'a = rat] by simp
  ultimately have "2 ^ nat (k - 1) < 1 / a" by linarith
  then have "2 ^ nat (k - 1) * a < 1" using assms by (simp add: pos_less_divide_eq)
  then have "a < 1 / 2 ^ nat (k - 1)" by (simp add: pos_less_divide_eq mult.commute)
  moreover have "pow2 (ilog2 a + 1) = 1 / 2 ^ nat (k - 1)"
    using k1 pow2_neg_exp [of "k - 1"] by (simp add: il)
  ultimately show ?thesis using 1 by simp
qed

lemma round_half_even_le: "q \<le> of_int n \<Longrightarrow> round_half_even q \<le> n"
proof -
  assume q: "q \<le> of_int n"
  then have f: "\<lfloor>q\<rfloor> \<le> n" by (simp add: floor_le_iff)
  show ?thesis
  proof (cases "\<lfloor>q\<rfloor> = n")
    case True
    have "of_int \<lfloor>q\<rfloor> \<le> q" by simp
    with q True have "q - of_int \<lfloor>q\<rfloor> = 0" by simp
    then show ?thesis using True by (simp add: round_half_even_def Let_def)
  next
    case False
    with f have "\<lfloor>q\<rfloor> + 1 \<le> n" by simp
    then show ?thesis by (simp add: round_half_even_def Let_def)
  qed
qed

lemma round_half_even_ge: "of_int n \<le> q \<Longrightarrow> n \<le> round_half_even q"
proof -
  assume "of_int n \<le> q"
  then have "n \<le> \<lfloor>q\<rfloor>" by (simp add: le_floor_iff)
  then show ?thesis by (simp add: round_half_even_def Let_def)
qed

lemma pow2_minus_52: "pow2 k = 2 ^ 52 * pow2 (k - 52)"
  using pow2_add_nat [of "k - 52" 52] by simp

text \<open>
  What \<open>round_mag\<close> returns for a positive rational: the exponent of the last place \<open>e\<close>, the
  significand \<open>m\<close>, and how far the result is from the argument.
\<close>

lemma round_mag_parts:
  assumes "0 < a"
  defines "e \<equiv> max (ilog2 a - 52) (- 1074)"
  defines "m \<equiv> round_half_even (a / pow2 e)"
  shows "round_mag a = (if 2 ^ 1024 \<le> of_int m * pow2 e then PInf else Finite (of_int m * pow2 e))"
    and "0 \<le> m" and "m \<le> 2 ^ 53" and "- 1074 \<le> e"
    and "\<bar>of_int m * pow2 e - a\<bar> \<le> pow2 e / 2"
    and "pow2 e / 2 \<le> max (a / 2 ^ 53) (1 / 2 ^ 1075)"
    and "972 \<le> e \<Longrightarrow> 2 ^ 1024 \<le> of_int m * pow2 e"
proof -
  have pe: "0 < pow2 e" by (rule pow2_pos)
  show "round_mag a = (if 2 ^ 1024 \<le> of_int m * pow2 e then PInf else Finite (of_int m * pow2 e))"
    by (simp add: round_mag_def Let_def e_def m_def)
  show "- 1074 \<le> e" by (simp add: e_def)
  have "0 \<le> a / pow2 e" using assms(1) pe by simp
  then show "0 \<le> m" unfolding m_def by (rule round_half_even_nonneg)
  from ilog2_bounds [OF assms(1)] have lo: "pow2 (ilog2 a) \<le> a" and hi: "a < pow2 (ilog2 a + 1)"
    by simp_all
  have "pow2 (ilog2 a + 1) = 2 ^ 53 * pow2 (ilog2 a - 52)"
    using pow2_minus_52 [of "ilog2 a"] by (simp add: pow2_Suc)
  also have "\<dots> \<le> 2 ^ 53 * pow2 e" using pow2_mono [of "ilog2 a - 52" e] by (simp add: e_def)
  finally have "a < 2 ^ 53 * pow2 e" using hi by simp
  then have "a / pow2 e \<le> of_int (2 ^ 53)" using pe by (simp add: pos_divide_le_eq)
  then show "m \<le> 2 ^ 53" unfolding m_def by (rule round_half_even_le)
  have "\<bar>of_int m * pow2 e - a\<bar> = \<bar>of_int m - a / pow2 e\<bar> * pow2 e"
  proof -
    have "of_int m * pow2 e - a = (of_int m - a / pow2 e) * pow2 e"
      using pe by (simp add: field_simps)
    then show ?thesis using pe by (simp add: abs_mult)
  qed
  also have "\<dots> \<le> 1 / 2 * pow2 e"
    using round_half_even_error [of "a / pow2 e"] pe unfolding m_def
    by (intro mult_right_mono) simp_all
  finally show "\<bar>of_int m * pow2 e - a\<bar> \<le> pow2 e / 2" by simp
  show "pow2 e / 2 \<le> max (a / 2 ^ 53) (1 / 2 ^ 1075)"
  proof (cases "- 1074 \<le> ilog2 a - 52")
    case True
    then have "e = ilog2 a - 52" by (simp add: e_def)
    then have "pow2 e / 2 = pow2 (ilog2 a) / 2 ^ 53"
      using pow2_minus_52 [of "ilog2 a"] by simp
    also have "\<dots> \<le> a / 2 ^ 53" using lo by (simp add: divide_right_mono)
    finally show ?thesis by simp
  next
    case False
    then have "e = - 1074" by (simp add: e_def)
    then have "pow2 e / 2 = 1 / 2 ^ 1075" by (simp add: pow2_def)
    then show ?thesis by simp
  qed
  show "2 ^ 1024 \<le> of_int m * pow2 e" if "972 \<le> e"
  proof -
    from that have e: "e = ilog2 a - 52" by (simp add: e_def)
    then have "a / pow2 e \<ge> 2 ^ 52"
      using lo pow2_minus_52 [of "ilog2 a"] pe by (simp add: pos_le_divide_eq)
    then have "of_int (2 ^ 52) \<le> a / pow2 e" by simp
    then have "2 ^ 52 \<le> m" unfolding m_def by (rule round_half_even_ge)
    then have m: "(2 ^ 52 :: rat) \<le> of_int m"
      using of_int_le_iff [of "2 ^ 52" m, where ?'a = rat] by simp
    from that have "pow2 972 \<le> pow2 e" by (rule pow2_mono)
    then have p: "(2 ^ 972 :: rat) \<le> pow2 e" by (simp add: pow2_def)
    have "(2 ^ 1024 :: rat) = 2 ^ 52 * 2 ^ 972" by (simp add: power_add [symmetric])
    also have "\<dots> \<le> of_int m * pow2 e" using m p by (intro mult_mono) simp_all
    finally show ?thesis .
  qed
qed

lemma round_mag_binary64:
  assumes "0 < a" and "round_mag a = Finite v"
  shows "(\<exists>m e. v = of_int m * pow2 e \<and> 0 \<le> m \<and> m < 2 ^ 53 \<and> - 1074 \<le> e \<and> e \<le> 971)
    \<and> \<bar>v - a\<bar> \<le> max (a / 2 ^ 53) (1 / 2 ^ 1075)"
proof -
  define e where "e = max (ilog2 a - 52) (- 1074)"
  define m where "m = round_half_even (a / pow2 e)"
  note parts = round_mag_parts [OF assms(1), folded e_def m_def]
  from parts(1) assms(2) have v: "v = of_int m * pow2 e" and fin: "\<not> 2 ^ 1024 \<le> of_int m * pow2 e"
    by (simp_all split: if_splits)
  from fin parts(7) have e971: "e \<le> 971" by fastforce
  from parts(5,6) have err: "\<bar>v - a\<bar> \<le> max (a / 2 ^ 53) (1 / 2 ^ 1075)"
    unfolding v by (rule order_trans)
  have "\<exists>m' e'. v = of_int m' * pow2 e' \<and> 0 \<le> m' \<and> m' < 2 ^ 53 \<and> - 1074 \<le> e' \<and> e' \<le> 971"
  proof (cases "m < 2 ^ 53")
    case True
    with v parts(2,4) e971 show ?thesis by blast
  next
    case False
    with parts(3) have m: "m = 2 ^ 53" by simp
    have v': "v = of_int (2 ^ 52) * pow2 (e + 1)" by (simp add: v m pow2_Suc)
    have "e \<noteq> 971"
    proof
      assume "e = 971"
      then have "of_int m * pow2 e = 2 ^ 1024" by (simp add: m pow2_def power_add [symmetric])
      with fin show False by simp
    qed
    with e971 have "e + 1 \<le> 971" by simp
    moreover from parts(4) have "- 1074 \<le> e + 1" by simp
    moreover have "(0::int) \<le> 2 ^ 52" "(2 ^ 52 :: int) < 2 ^ 53" by simp_all
    ultimately show ?thesis using v' by blast
  qed
  with err show ?thesis by simp
qed

text \<open>
  Every finite result of \<open>fround\<close> is a binary64 number: a significand of at most 53 bits times
  a power of two in the range of the format. It is the argument up to a relative error of
  \<open>2^-53\<close> (an absolute error of \<open>2^-1075\<close> near zero).
\<close>

lemma fround_binary64:
  assumes "fround q = Finite v"
  shows "(\<exists>m e. v = of_int m * pow2 e \<and> \<bar>m\<bar> < 2 ^ 53 \<and> - 1074 \<le> e \<and> e \<le> 971)
    \<and> \<bar>v - q\<bar> \<le> max (\<bar>q\<bar> / 2 ^ 53) (1 / 2 ^ 1075)"
proof -
  consider "q = 0" | "0 < q" | "q < 0" by linarith
  then show ?thesis
  proof cases
    case 1
    with assms have "v = 0" by (simp add: fround_def)
    then have "v = of_int 0 * pow2 0 \<and> \<bar>0::int\<bar> < 2 ^ 53 \<and> - 1074 \<le> (0::int) \<and> (0::int) \<le> 971"
      by simp
    then have "\<exists>m e. v = of_int m * pow2 e \<and> \<bar>m\<bar> < 2 ^ 53 \<and> - 1074 \<le> e \<and> e \<le> 971"
      by blast
    with 1 \<open>v = 0\<close> show ?thesis by simp
  next
    case 2
    with assms have "round_mag q = Finite v" by (simp add: fround_def)
    from round_mag_binary64 [OF 2 this] obtain m e where
      "v = of_int m * pow2 e" "0 \<le> m" "m < 2 ^ 53" "- 1074 \<le> e" "e \<le> 971"
      and err: "\<bar>v - q\<bar> \<le> max (q / 2 ^ 53) (1 / 2 ^ 1075)"
      by blast
    then have "v = of_int m * pow2 e \<and> \<bar>m\<bar> < 2 ^ 53 \<and> - 1074 \<le> e \<and> e \<le> 971" by simp
    then have "\<exists>m e. v = of_int m * pow2 e \<and> \<bar>m\<bar> < 2 ^ 53 \<and> - 1074 \<le> e \<and> e \<le> 971"
      by blast
    with err 2 show ?thesis by simp
  next
    case 3
    then have pos: "0 < - q" by simp
    from 3 assms have "fneg (round_mag (- q)) = Finite v" by (simp add: fround_def)
    then have "round_mag (- q) = Finite (- v)" by (cases "round_mag (- q)") simp_all
    from round_mag_binary64 [OF pos this] obtain m e where
      "- v = of_int m * pow2 e" "0 \<le> m" "m < 2 ^ 53" "- 1074 \<le> e" "e \<le> 971"
      and err: "\<bar>- v - (- q)\<bar> \<le> max (- q / 2 ^ 53) (1 / 2 ^ 1075)"
      by blast
    then have "v = of_int (- m) * pow2 e \<and> \<bar>- m\<bar> < 2 ^ 53 \<and> - 1074 \<le> e \<and> e \<le> 971"
      by (simp add: minus_equation_iff [of v])
    then have "\<exists>m e. v = of_int m * pow2 e \<and> \<bar>m\<bar> < 2 ^ 53 \<and> - 1074 \<le> e \<and> e \<le> 971"
      by blast
    moreover have "\<bar>- v - (- q)\<bar> = \<bar>v - q\<bar>" by simp
    ultimately show ?thesis using err 3 by simp
  qed
qed

lemma fround_not_NaN: "fround q \<noteq> NaN"
proof -
  have "round_mag a \<noteq> NaN" for a by (simp add: round_mag_def Let_def)
  moreover have "fneg y \<noteq> NaN" if "y \<noteq> NaN" for y using that by (cases y) simp_all
  ultimately show ?thesis by (simp add: fround_def)
qed

subsection \<open>The rounding is to nearest\<close>

lemma round_half_even_nearest: "\<bar>of_int (round_half_even x) - x\<bar> \<le> \<bar>of_int k - x\<bar>"
proof -
  define f where "f = \<lfloor>x\<rfloor>"
  define d where "d = x - of_int f"
  have d: "0 \<le> d" "d < 1" unfolding d_def f_def by linarith+
  have x: "x = of_int f + d" by (simp add: d_def)
  have rhe: "round_half_even x =
      (if d < 1 / 2 then f else if 1 / 2 < d then f + 1 else if even f then f else f + 1)"
    by (simp add: round_half_even_def Let_def f_def d_def)
  have lo: "of_int f - x = - d" and hi: "of_int (f + 1) - x = 1 - d"
    by (simp_all add: x)
  have err: "\<bar>of_int (round_half_even x) - x\<bar> \<le> d \<and> \<bar>of_int (round_half_even x) - x\<bar> \<le> 1 - d"
  proof (cases "round_half_even x = f")
    case True
    then have "d \<le> 1 / 2" using rhe by (auto split: if_splits)
    with d show ?thesis by (simp only: True lo) simp
  next
    case False
    then have r: "round_half_even x = f + 1" and "1 / 2 \<le> d"
      using rhe by (auto split: if_splits)
    with d show ?thesis by (simp only: r hi) simp
  qed
  show ?thesis
  proof (cases "k \<le> f")
    case True
    then have "(of_int k :: rat) \<le> of_int f" by simp
    then have "d \<le> \<bar>of_int k - x\<bar>" using d by (simp add: x)
    with err show ?thesis by linarith
  next
    case False
    then have "f + 1 \<le> k" by simp
    then have "(of_int (f + 1) :: rat) \<le> of_int k" by (simp only: of_int_le_iff)
    then have "1 - d \<le> \<bar>of_int k - x\<bar>" using d by (simp add: x)
    with err show ?thesis by linarith
  qed
qed

lemma binary64_bound: "binary64 d \<Longrightarrow> \<bar>d\<bar> < 2 ^ 1024"
proof -
  assume "binary64 d"
  then obtain m e where d: "d = of_int m * pow2 e" and m: "\<bar>m\<bar> < 2 ^ 53" and e: "e \<le> 971"
    by (auto simp: binary64_def)
  from m have "\<bar>of_int m :: rat\<bar> < 2 ^ 53"
    using of_int_less_iff [of "\<bar>m\<bar>" "2 ^ 53", where ?'a = rat] by simp
  moreover from e have "pow2 e \<le> pow2 971" by (rule pow2_mono)
  then have "pow2 e \<le> 2 ^ 971" by (simp add: pow2_def)
  ultimately have "\<bar>of_int m :: rat\<bar> * pow2 e < 2 ^ 53 * 2 ^ 971"
    using pow2_pos [of e] by (intro mult_less_le_imp_less) simp_all
  moreover have "\<bar>d\<bar> = \<bar>of_int m :: rat\<bar> * pow2 e"
    using pow2_pos [of e] by (simp add: d abs_mult)
  ultimately show ?thesis by (simp add: power_add [symmetric])
qed

lemma round_mag_nearest:
  assumes "0 < a" and "binary64 d"
  defines "e \<equiv> max (ilog2 a - 52) (- 1074)"
  defines "m \<equiv> round_half_even (a / pow2 e)"
  shows "\<bar>of_int m * pow2 e - a\<bar> \<le> \<bar>d - a\<bar>"
proof -
  have pe: "0 < pow2 e" by (rule pow2_pos)
  have grid: "\<bar>of_int m * pow2 e - a\<bar> \<le> \<bar>of_int k * pow2 e - a\<bar>" for k
  proof -
    have "\<bar>of_int j * pow2 e - a\<bar> = \<bar>of_int j - a / pow2 e\<bar> * pow2 e" for j
    proof -
      have "of_int j * pow2 e - a = (of_int j - a / pow2 e) * pow2 e"
        using pe by (simp add: field_simps)
      then show ?thesis using pe by (simp add: abs_mult)
    qed
    then show ?thesis
      using round_half_even_nearest [of "a / pow2 e" k] pe unfolding m_def
      by (simp add: mult_right_mono)
  qed
  from assms(2) obtain m' e' where d: "d = of_int m' * pow2 e'" and m': "\<bar>m'\<bar> < 2 ^ 53"
    and e': "- 1074 \<le> e'" by (auto simp: binary64_def)
  show ?thesis
  proof (cases "e \<le> e'")
    case True
    then obtain n where "e' = e + int n" using zle_iff_zadd by blast
    then have "pow2 e' = 2 ^ n * pow2 e" by (simp add: pow2_add_nat)
    then have "d = of_int (m' * 2 ^ n) * pow2 e" by (simp add: d)
    with grid [of "m' * 2 ^ n"] show ?thesis by simp
  next
    case False
    with e' have e: "e = ilog2 a - 52" by (simp add: e_def)
    from False have "e' \<le> e - 1" by simp
    then have "pow2 e' \<le> pow2 (e - 1)" by (rule pow2_mono)
    moreover have "pow2 e = 2 * pow2 (e - 1)" using pow2_Suc [of "e - 1"] by simp
    ultimately have pe': "2 * pow2 e' \<le> pow2 e" by simp
    from m' have "\<bar>of_int m' :: rat\<bar> < 2 ^ 53"
      using of_int_less_iff [of "\<bar>m'\<bar>" "2 ^ 53", where ?'a = rat] by simp
    then have "\<bar>of_int m' :: rat\<bar> * pow2 e' < 2 ^ 53 * pow2 e'"
      using pow2_pos [of e'] by simp
    also have "\<dots> \<le> 2 ^ 52 * pow2 e" using pe' by simp
    also have "\<dots> = pow2 (ilog2 a)" using pow2_minus_52 [of "ilog2 a"] by (simp add: e)
    finally have "\<bar>of_int m' :: rat\<bar> * pow2 e' < pow2 (ilog2 a)" .
    moreover have "\<bar>d\<bar> = \<bar>of_int m' :: rat\<bar> * pow2 e'"
      using pow2_pos [of e'] by (simp add: d abs_mult)
    ultimately have dp: "\<bar>d\<bar> < pow2 (ilog2 a)" by simp
    from ilog2_bounds [OF assms(1)] have pa: "pow2 (ilog2 a) \<le> a" by simp
    have "pow2 (ilog2 a) = of_int (2 ^ 52) * pow2 e"
      using pow2_minus_52 [of "ilog2 a"] by (simp add: e)
    with grid [of "2 ^ 52"] have "\<bar>of_int m * pow2 e - a\<bar> \<le> \<bar>pow2 (ilog2 a) - a\<bar>"
      by simp
    also have "\<dots> \<le> \<bar>d - a\<bar>" using dp pa by linarith
    finally show ?thesis .
  qed
qed

text \<open>
  \<open>fround\<close> rounds to nearest: no binary64 number is closer to the argument than a finite
  result, and a result is infinite only when the argument is beyond every binary64 number.
\<close>

lemma round_mag_nearest_result:
  assumes "0 < a" and "binary64 d"
  shows "round_mag a = Finite v \<Longrightarrow> \<bar>v - a\<bar> \<le> \<bar>d - a\<bar>"
    and "a \<le> d \<Longrightarrow> \<exists>v. round_mag a = Finite v \<and> v \<le> d"
proof -
  define e where "e = max (ilog2 a - 52) (- 1074)"
  define m where "m = round_half_even (a / pow2 e)"
  note near = round_mag_nearest [OF assms, folded e_def m_def]
  note parts = round_mag_parts [OF assms(1), folded e_def m_def]
  show "\<bar>v - a\<bar> \<le> \<bar>d - a\<bar>" if "round_mag a = Finite v"
  proof -
    from that parts(1) have "v = of_int m * pow2 e" by (simp split: if_splits)
    with near show ?thesis by simp
  qed
  show "\<exists>v. round_mag a = Finite v \<and> v \<le> d" if "a \<le> d"
  proof -
    from near that have "of_int m * pow2 e \<le> d" by linarith
    moreover from binary64_bound [OF assms(2)] have "d < 2 ^ 1024" by linarith
    ultimately show ?thesis using parts(1) by simp
  qed
qed

lemma binary64_minus: "binary64 d \<Longrightarrow> binary64 (- d)"
proof -
  assume "binary64 d"
  then obtain m e where "d = of_int m * pow2 e" "\<bar>m\<bar> < 2 ^ 53" "- 1074 \<le> e" "e \<le> 971"
    by (auto simp: binary64_def)
  then have "- d = of_int (- m) * pow2 e \<and> \<bar>- m\<bar> < 2 ^ 53 \<and> - 1074 \<le> e \<and> e \<le> 971" by simp
  then show ?thesis unfolding binary64_def by blast
qed

lemma binary64_zero: "binary64 0"
proof -
  have "(0::rat) = of_int 0 * pow2 0 \<and> \<bar>0::int\<bar> < 2 ^ 53 \<and> - 1074 \<le> (0::int) \<and> (0::int) \<le> 971"
    by simp
  then show ?thesis unfolding binary64_def by blast
qed

lemma fround_nearest:
  assumes "fround q = Finite v" and "binary64 d"
  shows "\<bar>v - q\<bar> \<le> \<bar>d - q\<bar>"
proof -
  consider "q = 0" | "0 < q" | "q < 0" by linarith
  then show ?thesis
  proof cases
    case 1
    with assms(1) show ?thesis by (simp add: fround_def)
  next
    case 2
    with assms(1) have "round_mag q = Finite v" by (simp add: fround_def)
    with 2 assms(2) show ?thesis by (rule round_mag_nearest_result(1))
  next
    case 3
    then have pos: "0 < - q" by simp
    from 3 assms(1) have "fneg (round_mag (- q)) = Finite v" by (simp add: fround_def)
    then have "round_mag (- q) = Finite (- v)" by (cases "round_mag (- q)") simp_all
    with pos binary64_minus [OF assms(2)] have "\<bar>- v - (- q)\<bar> \<le> \<bar>- d - (- q)\<bar>"
      by (rule round_mag_nearest_result(1))
    then show ?thesis by (simp add: abs_minus_commute)
  qed
qed

lemma fround_below_binary64:
  assumes "0 \<le> q" and "q \<le> d" and "binary64 d"
  shows "\<exists>v. fround q = Finite v \<and> 0 \<le> v \<and> v \<le> d"
proof (cases "q = 0")
  case True
  with assms show ?thesis by (simp add: fround_def)
next
  case False
  with assms(1) have pos: "0 < q" by simp
  from round_mag_nearest_result(2) [OF pos assms(3) assms(2)] obtain v
    where v: "round_mag q = Finite v" "v \<le> d" by blast
  from round_mag_nonneg [OF pos] v(1) have "0 \<le> v" by simp
  with v pos show ?thesis by (simp add: fround_def)
qed

lemma binary64_fround: "fround q = Finite v \<Longrightarrow> binary64 v"
  using fround_binary64 [of q v] by (simp add: binary64_def)

subsection \<open>Sums and differences of balances and amounts\<close>

lemma round_mag_finite:
  assumes "0 < a" and "a \<le> 2 ^ 63"
  shows "\<exists>v. round_mag a = Finite v"
proof -
  define e where "e = max (ilog2 a - 52) (- 1074)"
  define m where "m = round_half_even (a / pow2 e)"
  note parts = round_mag_parts [OF assms(1), folded e_def m_def]
  from parts(5,6) have "\<bar>of_int m * pow2 e - a\<bar> \<le> max (a / 2 ^ 53) (1 / 2 ^ 1075)"
    by (rule order_trans)
  moreover have "max (a / 2 ^ 53) (1 / 2 ^ 1075) \<le> a + 1" using assms(1) by simp
  ultimately have "of_int m * pow2 e \<le> 2 * 2 ^ 63 + 1" using assms(2) by linarith
  also have "\<dots> < (2 ^ 1024 :: rat)" by simp
  finally show ?thesis using parts(1) by simp
qed

lemma fround_int64_finite: "in_int64 i \<Longrightarrow> \<exists>v. fround (of_int i) = Finite v"
proof -
  assume i: "in_int64 i"
  consider "i = 0" | "0 < i" | "i < 0" by linarith
  then show ?thesis
  proof cases
    case 1
    then show ?thesis by (simp add: fround_def)
  next
    case 2
    with i have "i \<le> 2 ^ 63" by (simp add: in_int64_def)
    then have "(of_int i :: rat) \<le> 2 ^ 63"
      using of_int_le_iff [of i "2 ^ 63", where ?'a = rat] by simp
    moreover from 2 have "(0::rat) < of_int i" by simp
    ultimately obtain v where "round_mag (of_int i) = Finite v"
      using round_mag_finite by blast
    with \<open>(0::rat) < of_int i\<close> show ?thesis by (simp add: fround_def)
  next
    case 3
    with i have "- i \<le> 2 ^ 63" by (simp add: in_int64_def)
    then have "(of_int (- i) :: rat) \<le> 2 ^ 63"
      using of_int_le_iff [of "- i" "2 ^ 63", where ?'a = rat] by simp
    moreover from 3 have "(0::rat) < of_int (- i)" by simp
    ultimately obtain v where "round_mag (of_int (- i)) = Finite v"
      using round_mag_finite by blast
    with 3 show ?thesis by (simp add: fround_def)
  qed
qed

lemma fadd_nonneg2: "fle (Finite 0) b \<Longrightarrow> fle (Finite 0) x \<Longrightarrow> fle (Finite 0) (fadd b x)"
  by (cases b; cases x) (auto simp: fround_nonneg)

lemma fadd_binary64: "fadd b x = Finite v \<Longrightarrow> binary64 v"
  by (cases b; cases x) (auto simp: binary64_fround)

lemma fsub_binary64: "fsub b x = Finite v \<Longrightarrow> binary64 v"
  unfolding fsub_def by (rule fadd_binary64)

text \<open>
  A balance that is not below an int amount is not below the float the amount is converted
  to, because the balance is itself a float.
\<close>

lemma fsub_int_nonneg:
  assumes "binary64 r" and "0 < i" and "of_int i \<le> r" and "fround (of_int i) = Finite v"
  shows "fle (Finite 0) (fsub (Finite r) (Finite v))"
proof -
  from assms(2) have "(0::rat) \<le> of_int i" by simp
  from fround_below_binary64 [OF this assms(3) assms(1)] assms(4) have "v \<le> r" by simp
  then show ?thesis by (simp add: fsub_def fround_nonneg)
qed

lemma fold_max_ge: "seq \<le> fold max ids (seq::int) \<and> (\<forall>i\<in>set ids. i \<le> fold max ids seq)"
proof (induction ids arbitrary: seq)
  case Nil
  then show ?case by simp
next
  case (Cons i ids)
  from Cons.IH [of "max i seq"] show ?case by auto
qed

lemma next_rowid_fresh: "i \<in> set ids \<Longrightarrow> i < next_rowid seq ids"
  using fold_max_ge [of seq ids] by (auto simp: next_rowid_def)

lemma next_rowid_seq: "seq < next_rowid seq ids"
  using fold_max_ge [of seq ids] by (auto simp: next_rowid_def)

subsection \<open>What the writing methods do\<close>

lemma num_stored: "float_of_num amount = Some x \<Longrightarrow> bind_num amount = Some y \<Longrightarrow> y = x"
  by (cases amount) (auto simp: bind_real_def split: pyfloat.splits if_splits)

lemma bind_num_not_NaN: "bind_num amount = Some x \<Longrightarrow> x \<noteq> NaN"
  by (cases amount) (auto simp: bind_real_def fround_not_NaN split: if_splits)

lemma num_positive:
  assumes "\<not> num_le_zero amount" and "float_of_num amount = Some x" and "x \<noteq> NaN"
  shows "fle (Finite 0) x"
proof (cases amount)
  case (IntNum i)
  with assms(1) have "(0::rat) \<le> of_int i" by simp
  then have nonneg: "fle (Finite 0) (fround (of_int i))" by (rule fround_nonneg)
  from IntNum assms(2) have "x = fround (of_int i)" by (auto split: pyfloat.splits)
  with nonneg show ?thesis by simp
next
  case (FloatNum y)
  with assms show ?thesis using positive_cases [of x] by auto
qed

lemma bound_num_converts: "bind_num amount = Some x \<Longrightarrow> float_of_num amount = Some x"
proof (cases amount)
  case (IntNum i)
  assume "bind_num amount = Some x"
  with IntNum have i: "in_int64 i" and x: "x = fround (of_int i)" by (auto split: if_splits)
  from fround_int64_finite [OF i] obtain v where "fround (of_int i) = Finite v" by blast
  with IntNum x show ?thesis by simp
next
  case (FloatNum y)
  assume "bind_num amount = Some x"
  with FloatNum show ?thesis by (simp add: bind_real_def split: if_splits)
qed

lemma above_balance_positive:
  "fle (Finite 0) b \<Longrightarrow> float_lt_num b amount \<Longrightarrow> \<not> num_le_zero amount"
proof (cases amount)
  case (IntNum i)
  assume "fle (Finite 0) b" and "float_lt_num b amount"
  with IntNum show ?thesis by (cases b) auto
next
  case (FloatNum x)
  assume "fle (Finite 0) b" and "float_lt_num b amount"
  with FloatNum show ?thesis by (cases b; cases x) auto
qed

lemma insert_transaction_Some:
  "bind_num amount = Some x \<Longrightarrow> nb \<noteq> NaN \<Longrightarrow>
   insert_transaction (update_balance s a nb) a act amount nb dt
     = Some (committed s a act x nb dt)"
  by (simp add: insert_transaction_def update_balance_def committed_def bind_real_def Let_def)

lemma insert_transaction_None:
  "bind_num amount = None \<or> nb = NaN \<Longrightarrow> insert_transaction s1 a act amount nb dt = None"
  by (auto simp: insert_transaction_def bind_real_def split: option.splits)

lemma deposit_run_success:
  assumes "in_int64 a" "select_customer s a = Some c" "balance c = Some b"
    "\<not> num_le_zero amount" "float_of_num amount = Some x" "bind_num amount = Some x"
    "fadd b x \<noteq> NaN"
  shows "deposit_run s dt a amount = (Inr (fadd b x), committed s a Credit x (fadd b x) dt)"
  using assms by (simp add: deposit_run_def Let_def insert_transaction_Some)

lemma withdraw_run_success:
  assumes "in_int64 a" "select_customer s a = Some c" "balance c = Some b"
    "\<not> num_le_zero amount" "\<not> float_lt_num b amount" "float_of_num amount = Some x"
    "bind_num amount = Some x" "fsub b x \<noteq> NaN"
  shows "withdraw_run s dt a amount = (Inr (fsub b x), committed s a Debit x (fsub b x) dt)"
  using assms by (simp add: withdraw_run_def Let_def insert_transaction_Some)

text \<open>Either a refusal, which leaves the database as it was, or a commit.\<close>

lemma deposit_run_cases [case_names fail commit]:
  obtains f where "deposit_run s dt a amount = (Inl f, s)"
  | c b x where "in_int64 a" and "select_customer s a = Some c" and "balance c = Some b"
      and "\<not> num_le_zero amount" and "float_of_num amount = Some x"
      and "bind_num amount = Some x" and "fadd b x \<noteq> NaN"
      and "deposit_run s dt a amount = (Inr (fadd b x), committed s a Credit x (fadd b x) dt)"
proof (cases "num_le_zero amount \<or> \<not> in_int64 a \<or> select_customer s a = None")
  case True
  then have "\<exists>f. deposit_run s dt a amount = (Inl f, s)" by (auto simp: deposit_run_def)
  then show ?thesis using that(1) by blast
next
  case False
  then obtain c where c: "select_customer s a = Some c" and n: "\<not> num_le_zero amount"
    and a: "in_int64 a" by auto
  show ?thesis
  proof (cases "balance c")
    case None
    with c n a have "deposit_run s dt a amount = (Inl Caught_Exception, s)"
      by (simp add: deposit_run_def)
    then show ?thesis by (rule that(1))
  next
    case (Some b)
    show ?thesis
    proof (cases "float_of_num amount")
      case None
      with c n a Some have "deposit_run s dt a amount = (Inl Caught_Exception, s)"
        by (simp add: deposit_run_def)
      then show ?thesis by (rule that(1))
    next
      case x: (Some x)
      show ?thesis
      proof (cases "bind_num amount = None \<or> fadd b x = NaN")
        case True
        then have "insert_transaction (update_balance s a (fadd b x)) a Credit amount
            (fadd b x) dt = None"
          by (rule insert_transaction_None)
        with c n a Some x have "deposit_run s dt a amount = (Inl Caught_Exception, s)"
          by (simp add: deposit_run_def Let_def)
        then show ?thesis by (rule that(1))
      next
        case False
        then obtain y where y: "bind_num amount = Some y" and nb: "fadd b x \<noteq> NaN" by auto
        from x y have "y = x" by (rule num_stored)
        with y have bx: "bind_num amount = Some x" by simp
        from a c Some n x bx nb show ?thesis
          by (rule that(2)) (rule deposit_run_success [OF a c Some n x bx nb])
      qed
    qed
  qed
qed

lemma withdraw_run_cases [case_names fail commit]:
  obtains f where "withdraw_run s dt a amount = (Inl f, s)"
  | c b x where "in_int64 a" and "select_customer s a = Some c" and "balance c = Some b"
      and "\<not> num_le_zero amount" and "\<not> float_lt_num b amount"
      and "float_of_num amount = Some x" and "bind_num amount = Some x"
      and "fsub b x \<noteq> NaN"
      and "withdraw_run s dt a amount = (Inr (fsub b x), committed s a Debit x (fsub b x) dt)"
proof (cases "num_le_zero amount \<or> \<not> in_int64 a \<or> select_customer s a = None")
  case True
  then have "\<exists>f. withdraw_run s dt a amount = (Inl f, s)" by (auto simp: withdraw_run_def)
  then show ?thesis using that(1) by blast
next
  case False
  then obtain c where c: "select_customer s a = Some c" and n: "\<not> num_le_zero amount"
    and a: "in_int64 a" by auto
  show ?thesis
  proof (cases "balance c")
    case None
    with c n a have "withdraw_run s dt a amount = (Inl Caught_Exception, s)"
      by (simp add: withdraw_run_def)
    then show ?thesis by (rule that(1))
  next
    case (Some b)
    show ?thesis
    proof (cases "float_lt_num b amount")
      case True
      with c n a Some have "withdraw_run s dt a amount = (Inl Balance_Below_Amount, s)"
        by (simp add: withdraw_run_def)
      then show ?thesis by (rule that(1))
    next
      case nlt: False
      show ?thesis
      proof (cases "float_of_num amount")
        case None
        with c n a Some nlt have "withdraw_run s dt a amount = (Inl Caught_Exception, s)"
          by (simp add: withdraw_run_def)
        then show ?thesis by (rule that(1))
      next
        case x: (Some x)
        show ?thesis
        proof (cases "bind_num amount = None \<or> fsub b x = NaN")
          case True
          then have "insert_transaction (update_balance s a (fsub b x)) a Debit amount
              (fsub b x) dt = None"
            by (rule insert_transaction_None)
          with c n a Some nlt x have "withdraw_run s dt a amount = (Inl Caught_Exception, s)"
            by (simp add: withdraw_run_def Let_def)
          then show ?thesis by (rule that(1))
        next
          case False
          then obtain y where y: "bind_num amount = Some y" and nb: "fsub b x \<noteq> NaN"
            by auto
          from x y have "y = x" by (rule num_stored)
          with y have bx: "bind_num amount = Some x" by simp
          from a c Some n nlt x bx nb show ?thesis
            by (rule that(2)) (rule withdraw_run_success [OF a c Some n nlt x bx nb])
        qed
      qed
    qed
  qed
qed

text \<open>The same for what the caller sees.\<close>

lemma deposit_cases [case_names fail commit]:
  obtains "deposit s dt a amount = (None, s)"
  | c b x where "in_int64 a" and "select_customer s a = Some c" and "balance c = Some b"
      and "\<not> num_le_zero amount" and "float_of_num amount = Some x"
      and "bind_num amount = Some x" and "fadd b x \<noteq> NaN"
      and "deposit s dt a amount = (Some (fadd b x), committed s a Credit x (fadd b x) dt)"
proof (cases rule: deposit_run_cases [where s = s and dt = dt and a = a and amount = amount])
  case (fail f)
  then have "deposit s dt a amount = (None, s)" by (simp add: deposit_def returned_def)
  then show ?thesis by (rule that(1))
next
  case (commit c b x)
  from commit(8) have "deposit s dt a amount
      = (Some (fadd b x), committed s a Credit x (fadd b x) dt)"
    by (simp add: deposit_def returned_def)
  with commit(1-7) show ?thesis by (rule that(2))
qed

lemma withdraw_cases [case_names fail commit]:
  obtains "withdraw s dt a amount = (None, s)"
  | c b x where "in_int64 a" and "select_customer s a = Some c" and "balance c = Some b"
      and "\<not> num_le_zero amount" and "\<not> float_lt_num b amount"
      and "float_of_num amount = Some x" and "bind_num amount = Some x"
      and "fsub b x \<noteq> NaN"
      and "withdraw s dt a amount = (Some (fsub b x), committed s a Debit x (fsub b x) dt)"
proof (cases rule: withdraw_run_cases [where s = s and dt = dt and a = a and amount = amount])
  case (fail f)
  then have "withdraw s dt a amount = (None, s)" by (simp add: withdraw_def returned_def)
  then show ?thesis by (rule that(1))
next
  case (commit c b x)
  from commit(9) have "withdraw s dt a amount
      = (Some (fsub b x), committed s a Debit x (fsub b x) dt)"
    by (simp add: withdraw_def returned_def)
  with commit(1-8) show ?thesis by (rule that(2))
qed

subsection \<open>Runs keep the invariants\<close>

lemma steps_invariant:
  assumes "steps H s0 s" and "P s0"
    and "\<And>t nm mob em pin atype. P t \<Longrightarrow> P (snd (create_account H t nm mob em pin atype))"
    and "\<And>t dt a x. P t \<Longrightarrow> P (snd (deposit t dt a x))"
    and "\<And>t dt a x. P t \<Longrightarrow> P (snd (withdraw t dt a x))"
  shows "P s"
  using assms by (induction rule: steps.induct) auto

lemma create_account_cases [case_names fail commit]:
  obtains "create_account H s nm mob em pin atype = (None, s)"
  | "mob \<notin> set (map mobile_no (customer s))" and "em \<notin> set (map email (customer s))"
      and "atype \<in> {''Savings'', ''Current''}"
      and "create_account H s nm mob em pin atype =
        (Some (next_rowid (customer_seq s) (map account_no (customer s))),
         s\<lparr>customer := customer s @
              [\<lparr>account_no = next_rowid (customer_seq s) (map account_no (customer s)),
                name = nm, mobile_no = mob, email = em, pin_hash = H (str_py pin),
                action_type = atype, balance = Some (Finite 0)\<rparr>],
           customer_seq := next_rowid (customer_seq s) (map account_no (customer s))\<rparr>)"
  by (cases "atype \<notin> {''Savings'', ''Current''} \<or> mob \<in> set (map mobile_no (customer s))
        \<or> em \<in> set (map email (customer s))")
     (simp_all add: create_account_def Let_def)

lemma select_customer_SomeD:
  "select_customer s a = Some c \<Longrightarrow> c \<in> set (customer s) \<and> account_no c = a"
  by (auto simp: select_customer_def find_Some_iff)

lemma select_customer_None_iff:
  "select_customer s a = None \<longleftrightarrow> a \<notin> account_no ` set (customer s)"
  by (auto simp: select_customer_def find_None_iff)

lemma balances_nonneg_committed:
  "balances_nonneg s \<Longrightarrow> fle (Finite 0) nb \<Longrightarrow> balances_nonneg (committed s a act x nb dt)"
  by (auto simp: balances_nonneg_def committed_def)

lemma balances_nonneg_deposit: "balances_nonneg s \<Longrightarrow> balances_nonneg (snd (deposit s dt a x))"
proof (cases rule: deposit_cases [where s = s and dt = dt and a = a and amount = x])
  case fail
  assume "balances_nonneg s"
  with fail show ?thesis by simp
next
  case (commit c b y)
  assume inv: "balances_nonneg s"
  from commit(2) have "c \<in> set (customer s)" by (simp add: select_customer_SomeD)
  with inv commit(3) have "fle (Finite 0) b" by (auto simp: balances_nonneg_def)
  moreover from commit(6) have "y \<noteq> NaN" by (rule bind_num_not_NaN)
  with commit(4,5) have "fle (Finite 0) y" by (rule num_positive)
  ultimately have "fle (Finite 0) (fadd b y)" by (rule fadd_nonneg2)
  with inv commit show ?thesis by (simp add: balances_nonneg_committed)
qed

text \<open>
  A withdrawal of a float amount subtracts what was compared. An int amount is compared
  exactly and subtracted as a float, so here the balance being a float matters.
\<close>

lemma withdraw_difference_nonneg:
  assumes "fle (Finite 0) b" and "\<forall>v. b = Finite v \<longrightarrow> binary64 v"
    and "\<not> num_le_zero amount" and "\<not> float_lt_num b amount"
    and "float_of_num amount = Some y" and "fsub b y \<noteq> NaN"
  shows "fle (Finite 0) (fsub b y)"
proof (cases amount)
  case (FloatNum z)
  with assms show ?thesis by (simp add: fsub_nonneg)
next
  case (IntNum i)
  with assms(3) have i: "0 < i" by simp
  from IntNum assms(5) obtain v where v: "fround (of_int i) = Finite v" and y: "y = Finite v"
    by (auto split: pyfloat.splits)
  from assms(1) consider "b = PInf" | r where "b = Finite r" by (auto simp: fle_zero_cases)
  then show ?thesis
  proof cases
    case 1
    then show ?thesis by (simp add: y fsub_def)
  next
    case 2
    with assms(2) have "binary64 r" by simp
    moreover from 2 IntNum assms(4) have "of_int i \<le> r" by simp
    ultimately show ?thesis unfolding 2 y using i v by (intro fsub_int_nonneg)
  qed
qed

lemma balances_nonneg_withdraw:
  "balances_binary64 s \<Longrightarrow> balances_nonneg s \<Longrightarrow> balances_nonneg (snd (withdraw s dt a x))"
proof (cases rule: withdraw_cases [where s = s and dt = dt and a = a and amount = x])
  case fail
  assume "balances_nonneg s"
  with fail show ?thesis by simp
next
  case (commit c b y)
  assume bin: "balances_binary64 s" and inv: "balances_nonneg s"
  from commit(2) have c: "c \<in> set (customer s)" by (simp add: select_customer_SomeD)
  with inv commit(3) have "fle (Finite 0) b" by (auto simp: balances_nonneg_def)
  moreover from bin c commit(3) have "\<forall>v. b = Finite v \<longrightarrow> binary64 v"
    by (auto simp: balances_binary64_def)
  ultimately have "fle (Finite 0) (fsub b y)"
    using commit(4,5,6,8) by (rule withdraw_difference_nonneg)
  with inv commit show ?thesis by (simp add: balances_nonneg_committed)
qed

lemma balances_nonneg_create:
  "balances_nonneg s \<Longrightarrow> balances_nonneg (snd (create_account H s nm mob em pin atype))"
  by (cases rule: create_account_cases
      [where H = H and s = s and nm = nm and mob = mob and em = em and pin = pin and atype = atype])
     (auto simp: balances_nonneg_def)

lemma balances_binary64_committed:
  assumes "balances_binary64 s" and "\<forall>v. nb = Finite v \<longrightarrow> binary64 v"
  shows "balances_binary64 (committed s a act x nb dt)"
  using assms by (auto simp: balances_binary64_def committed_def)

lemma balances_binary64_deposit:
  "balances_binary64 s \<Longrightarrow> balances_binary64 (snd (deposit s dt a x))"
proof (cases rule: deposit_cases [where s = s and dt = dt and a = a and amount = x])
  case fail
  assume "balances_binary64 s"
  with fail show ?thesis by simp
next
  case (commit c b y)
  assume "balances_binary64 s"
  moreover have "\<forall>v. fadd b y = Finite v \<longrightarrow> binary64 v" by (simp add: fadd_binary64)
  ultimately show ?thesis using commit by (simp add: balances_binary64_committed)
qed

lemma balances_binary64_withdraw:
  "balances_binary64 s \<Longrightarrow> balances_binary64 (snd (withdraw s dt a x))"
proof (cases rule: withdraw_cases [where s = s and dt = dt and a = a and amount = x])
  case fail
  assume "balances_binary64 s"
  with fail show ?thesis by simp
next
  case (commit c b y)
  assume "balances_binary64 s"
  moreover have "\<forall>v. fsub b y = Finite v \<longrightarrow> binary64 v" by (simp add: fsub_binary64)
  ultimately show ?thesis using commit by (simp add: balances_binary64_committed)
qed

lemma balances_binary64_create:
  "balances_binary64 s \<Longrightarrow> balances_binary64 (snd (create_account H s nm mob em pin atype))"
  by (cases rule: create_account_cases
      [where H = H and s = s and nm = nm and mob = mob and em = em and pin = pin and atype = atype])
     (auto simp: balances_binary64_def binary64_zero)

lemma balances_steps:
  "steps H s0 s \<Longrightarrow> balances_binary64 s0 \<and> balances_nonneg s0
     \<Longrightarrow> balances_binary64 s \<and> balances_nonneg s"
  by (erule steps_invariant)
     (simp_all add: balances_nonneg_create balances_nonneg_deposit balances_nonneg_withdraw
        balances_binary64_create balances_binary64_deposit balances_binary64_withdraw)

lemma balances_reachable:
  assumes "reachable H s"
  shows "balances_binary64 s" and "balances_nonneg s"
proof -
  from assms have "steps H init_db s" by (simp add: reachable_def)
  moreover have "balances_binary64 init_db \<and> balances_nonneg init_db"
    by (simp add: balances_binary64_def balances_nonneg_def init_db_def)
  ultimately have "balances_binary64 s \<and> balances_nonneg s" by (rule balances_steps)
  then show "balances_binary64 s" and "balances_nonneg s" by simp_all
qed

lemma balances_nonneg_reachable: "reachable H s \<Longrightarrow> balances_nonneg s"
  by (rule balances_reachable)

text \<open>The keys stay distinct and ordered.\<close>

lemma keys_ok_committed:
  assumes "keys_ok s" and "a \<in> account_no ` set (customer s)"
  shows "keys_ok (committed s a act x nb dt)"
proof -
  have ids: "map account_no (map (\<lambda>c. if account_no c = a then c\<lparr>balance := Some nb\<rparr> else c)
      (customer s)) = map account_no (customer s)"
    by (induction "customer s") (auto simp: comp_def)
  have set_ids: "account_no ` set (map (\<lambda>c. if account_no c = a then c\<lparr>balance := Some nb\<rparr> else c)
      (customer s)) = account_no ` set (customer s)"
    using arg_cong [OF ids, of set] by (simp only: set_map)
  have fresh: "\<forall>i\<in>set (map tx_id (transactions s)).
      i < next_rowid (transactions_seq s) (map tx_id (transactions s))"
    using next_rowid_fresh by blast
  from assms ids set_ids fresh show ?thesis
    unfolding keys_ok_def committed_def
    by (simp add: sorted_wrt_append del: set_map map_map)
qed

lemma keys_ok_deposit: "keys_ok s \<Longrightarrow> keys_ok (snd (deposit s dt a x))"
proof (cases rule: deposit_cases [where s = s and dt = dt and a = a and amount = x])
  case fail
  assume "keys_ok s"
  with fail show ?thesis by simp
next
  case (commit c b y)
  assume inv: "keys_ok s"
  from commit(2) have "a \<in> account_no ` set (customer s)"
    using select_customer_SomeD by blast
  with inv commit show ?thesis by (simp add: keys_ok_committed)
qed

lemma keys_ok_withdraw: "keys_ok s \<Longrightarrow> keys_ok (snd (withdraw s dt a x))"
proof (cases rule: withdraw_cases [where s = s and dt = dt and a = a and amount = x])
  case fail
  assume "keys_ok s"
  with fail show ?thesis by simp
next
  case (commit c b y)
  assume inv: "keys_ok s"
  from commit(2) have "a \<in> account_no ` set (customer s)"
    using select_customer_SomeD by blast
  with inv commit show ?thesis by (simp add: keys_ok_committed)
qed

lemma keys_ok_create: "keys_ok s \<Longrightarrow> keys_ok (snd (create_account H s nm mob em pin atype))"
proof (cases rule: create_account_cases
      [where H = H and s = s and nm = nm and mob = mob and em = em and pin = pin and atype = atype])
  case fail
  assume "keys_ok s"
  with fail show ?thesis by simp
next
  case commit
  assume inv: "keys_ok s"
  have "next_rowid (customer_seq s) (map account_no (customer s)) \<notin> set (map account_no (customer s))"
    using next_rowid_fresh [of _ "map account_no (customer s)" "customer_seq s"] by blast
  with inv commit(4) show ?thesis
    by (auto simp: keys_ok_def)
qed

lemma keys_ok_steps: "steps H s0 s \<Longrightarrow> keys_ok s0 \<Longrightarrow> keys_ok s"
  by (erule steps_invariant) (simp_all add: keys_ok_create keys_ok_deposit keys_ok_withdraw)

lemma keys_ok_reachable: "reachable H s \<Longrightarrow> keys_ok s"
  unfolding reachable_def by (erule keys_ok_steps) (simp add: keys_ok_def init_db_def)

text \<open>The balance stays the replay of the log.\<close>

lemma replay_snoc: "replay (txs @ [t]) = apply_tx (replay txs) t"
  by (simp add: replay_def)

lemma balances_replayed_committed:
  assumes inv: "balances_replayed s"
    and c: "select_customer s a = Some c" and b: "balance c = Some b"
    and nb: "nb = (case act of Credit \<Rightarrow> fadd b x | Debit \<Rightarrow> fsub b x)"
  shows "balances_replayed (committed s a act x nb dt)"
proof -
  let ?t = "\<lparr>tx_id = next_rowid (transactions_seq s) (map tx_id (transactions s)),
      tx_account_no = a, tx_action_type = act, tx_amount = x, tx_balance_after = nb,
      tx_date_time = dt\<rparr>"
  from c have "c \<in> set (customer s)" and "account_no c = a"
    by (simp_all add: select_customer_SomeD)
  with inv b have old: "replay (filter (\<lambda>t. tx_account_no t = a) (transactions s)) = b"
    by (auto simp: balances_replayed_def)
  have new: "apply_tx b ?t = nb"
    by (simp add: apply_tx_def nb split: tx_action.splits)
  have cust: "customer (committed s a act x nb dt) =
      map (\<lambda>c. if account_no c = a then c\<lparr>balance := Some nb\<rparr> else c) (customer s)"
    and txs: "transactions (committed s a act x nb dt) = transactions s @ [?t]"
    by (simp_all add: committed_def)
  show ?thesis
    unfolding balances_replayed_def
  proof
    fix c'' assume "c'' \<in> set (customer (committed s a act x nb dt))"
    then obtain c' where c': "c' \<in> set (customer s)"
      and c'': "c'' = (if account_no c' = a then c'\<lparr>balance := Some nb\<rparr> else c')"
      by (auto simp: cust)
    show "balance c'' = Some (replay (filter (\<lambda>t. tx_account_no t = account_no c'')
        (transactions (committed s a act x nb dt))))"
    proof (cases "account_no c' = a")
      case True
      then have "replay (filter (\<lambda>t. tx_account_no t = account_no c'') (transactions s @ [?t]))
          = nb"
        by (simp add: c'' replay_snoc old new)
      with True show ?thesis by (simp add: c'' txs)
    next
      case False
      with inv c' have "balance c' =
          Some (replay (filter (\<lambda>t. tx_account_no t = account_no c') (transactions s)))"
        by (simp add: balances_replayed_def)
      with False show ?thesis by (simp add: c'' txs)
    qed
  qed
qed

lemma balances_replayed_deposit:
  "balances_replayed s \<Longrightarrow> balances_replayed (snd (deposit s dt a x))"
proof (cases rule: deposit_cases [where s = s and dt = dt and a = a and amount = x])
  case fail
  assume "balances_replayed s"
  with fail show ?thesis by simp
next
  case (commit c b y)
  assume "balances_replayed s"
  then have "balances_replayed (committed s a Credit y (fadd b y) dt)"
    using commit(2,3) by (rule balances_replayed_committed) simp
  with commit show ?thesis by simp
qed

lemma balances_replayed_withdraw:
  "balances_replayed s \<Longrightarrow> balances_replayed (snd (withdraw s dt a x))"
proof (cases rule: withdraw_cases [where s = s and dt = dt and a = a and amount = x])
  case fail
  assume "balances_replayed s"
  with fail show ?thesis by simp
next
  case (commit c b y)
  assume "balances_replayed s"
  then have "balances_replayed (committed s a Debit y (fsub b y) dt)"
    using commit(2,3) by (rule balances_replayed_committed) simp
  with commit show ?thesis by simp
qed

lemma balances_replayed_create:
  assumes "keys_ok s" and "balances_replayed s"
  shows "balances_replayed (snd (create_account H s nm mob em pin atype))"
proof (cases rule: create_account_cases
      [where H = H and s = s and nm = nm and mob = mob and em = em and pin = pin and atype = atype])
  case fail
  with assms show ?thesis by simp
next
  case commit
  let ?no = "next_rowid (customer_seq s) (map account_no (customer s))"
  have "?no \<notin> set (map account_no (customer s))"
    using next_rowid_fresh [of _ "map account_no (customer s)" "customer_seq s"] by blast
  moreover from assms(1) have "\<forall>t\<in>set (transactions s).
      tx_account_no t \<in> set (map account_no (customer s))"
    by (simp add: keys_ok_def)
  ultimately have "\<forall>t\<in>set (transactions s). tx_account_no t \<noteq> ?no"
    by metis
  then have "filter (\<lambda>t. tx_account_no t = ?no) (transactions s) = []"
    by (simp add: filter_empty_conv)
  with assms(2) commit(4) show ?thesis
    by (auto simp: balances_replayed_def replay_def)
qed

lemma balances_replayed_steps:
  "steps H s0 s \<Longrightarrow> keys_ok s0 \<and> balances_replayed s0 \<Longrightarrow> keys_ok s \<and> balances_replayed s"
  by (erule steps_invariant)
     (simp_all add: keys_ok_create keys_ok_deposit keys_ok_withdraw balances_replayed_create
        balances_replayed_deposit balances_replayed_withdraw)

lemma balances_replayed_reachable: "reachable H s \<Longrightarrow> balances_replayed s"
proof -
  assume "reachable H s"
  then have "steps H init_db s" by (simp add: reachable_def)
  moreover have "keys_ok init_db \<and> balances_replayed init_db"
    by (simp add: keys_ok_def balances_replayed_def init_db_def)
  ultimately show ?thesis using balances_replayed_steps by blast
qed

lemma account_log_reachable:
  "reachable H s \<Longrightarrow> account_log s a = filter (\<lambda>t. tx_account_no t = a) (transactions s)"
proof -
  assume "reachable H s"
  then have "sorted_wrt (<) (map tx_id (transactions s))"
    using keys_ok_reachable by (auto simp: keys_ok_def)
  then have "sorted (map tx_id (transactions s))" by (rule strict_sorted_imp_sorted)
  then show ?thesis by (simp add: account_log_def sort_key_id_if_sorted)
qed

subsection \<open>Evaluating the example runs\<close>

lemma floor_rat_numeral_div:
  "\<lfloor>numeral a / (numeral b :: rat)\<rfloor> = numeral a div numeral b"
  using floor_divide_of_int_eq [of "numeral a" "numeral b", where ?'a = rat] by simp

lemma ceiling_rat_numeral_div:
  "\<lceil>numeral a / (numeral b :: rat)\<rceil> = - ((- numeral a) div numeral b)"
  using floor_divide_of_int_eq [of "- numeral a" "numeral b", where ?'a = rat]
  by (simp add: ceiling_def)

lemmas fround_eval = fround_def round_mag_def ilog2_def pow2_def round_half_even_def Let_def
  floor_rat_numeral_div ceiling_rat_numeral_div

lemma bitlen_values:
  "bitlen 1 = 1" "bitlen 3 = 2" "bitlen 4 = 3" "bitlen 9 = 4" "bitlen 200 = 8" "bitlen 800 = 10"
  "bitlen 1000 = 10" "bitlen 10000000000000000 = 54" "bitlen 10000000000000001 = 54"
  by code_simp+

text \<open>
  Some floats and sums: \<open>1e16 + 1.0\<close> is \<open>1e16\<close>; the literals \<open>0.1\<close>, \<open>0.2\<close> and \<open>0.3\<close>;
  and \<open>0.1 + 0.2\<close>, which is \<open>0.30000000000000004\<close>, the float after \<open>0.3\<close>.
\<close>

lemma fround_values:
  shows fround_0: "fround 0 = Finite 0"
    and fround_1: "fround 1 = Finite 1"
    and fround_200: "fround 200 = Finite 200"
    and fround_800: "fround 800 = Finite 800"
    and fround_1000: "fround 1000 = Finite 1000"
    and fround_1e16: "fround (10 ^ 16) = Finite (10 ^ 16)"
    and fround_1e16_plus_1: "fround (10 ^ 16 + 1) = Finite (10 ^ 16)"
    and fround_tenth: "fround (1 / 10) = Finite (3602879701896397 / 2 ^ 55)"
    and fround_two_tenths: "fround (2 / 10) = Finite (3602879701896397 / 2 ^ 54)"
    and fround_three_tenths: "fround (3 / 10) = Finite (5404319552844595 / 2 ^ 54)"
    and fround_tenth_again:
      "fround (3602879701896397 / 2 ^ 55) = Finite (3602879701896397 / 2 ^ 55)"
    and fround_tenth_plus_two_tenths:
      "fround (3602879701896397 / 2 ^ 55 + 3602879701896397 / 2 ^ 54)
         = Finite (5404319552844596 / 2 ^ 54)"
  by (simp_all add: fround_eval bitlen_values)

lemma str_py_1234: "str_py (PyInt 1234) = ''1234''"
  by code_simp

lemmas db_eval = create_account_def deposit_def withdraw_def deposit_run_def withdraw_run_def
  returned_def select_customer_def update_balance_def insert_transaction_def bind_real_def
  in_int64_def next_rowid_def fsub_def Let_def

lemma db_opened_eq:
  "db_opened =
     \<lparr>customer = [\<lparr>account_no = 1, name = ''John Doe'', mobile_no = ''1234567890'',
         email = ''john@example.com'', pin_hash = 4, action_type = ''Savings'',
         balance = Some (Finite 0)\<rparr>],
      customer_seq = 1, transactions = [], transactions_seq = 0\<rparr>"
  by (simp add: db_opened_def init_db_def db_eval example_digest_def str_py_1234
      del: str_py.simps)

lemma db_deposited_eq:
  "db_deposited =
     \<lparr>customer = [\<lparr>account_no = 1, name = ''John Doe'', mobile_no = ''1234567890'',
         email = ''john@example.com'', pin_hash = 4, action_type = ''Savings'',
         balance = Some (Finite 1000)\<rparr>],
      customer_seq = 1,
      transactions = [\<lparr>tx_id = 1, tx_account_no = 1, tx_action_type = Credit,
         tx_amount = Finite 1000, tx_balance_after = Finite 1000,
         tx_date_time = ''2024-01-01T10:00:00''\<rparr>],
      transactions_seq = 1\<rparr>"
  by (simp add: db_deposited_def db_opened_eq db_eval fround_values)

lemma db_withdrawn_eq:
  "db_withdrawn =
     \<lparr>customer = [\<lparr>account_no = 1, name = ''John Doe'', mobile_no = ''1234567890'',
         email = ''john@example.com'', pin_hash = 4, action_type = ''Savings'',
         balance = Some (Finite 800)\<rparr>],
      customer_seq = 1,
      transactions = [\<lparr>tx_id = 1, tx_account_no = 1, tx_action_type = Credit,
         tx_amount = Finite 1000, tx_balance_after = Finite 1000,
         tx_date_time = ''2024-01-01T10:00:00''\<rparr>,
        \<lparr>tx_id = 2, tx_account_no = 1, tx_action_type = Debit,
         tx_amount = Finite 200, tx_balance_after = Finite 800,
         tx_date_time = ''2024-01-01T10:00:01.500000''\<rparr>],
      transactions_seq = 2\<rparr>"
  by (simp add: db_withdrawn_def db_deposited_eq db_eval fround_values)

lemma db_1e16_eq:
  "db_1e16 =
     \<lparr>customer = [\<lparr>account_no = 1, name = ''John Doe'', mobile_no = ''1234567890'',
         email = ''john@example.com'', pin_hash = 4, action_type = ''Savings'',
         balance = Some (Finite (10 ^ 16))\<rparr>],
      customer_seq = 1,
      transactions = [\<lparr>tx_id = 1, tx_account_no = 1, tx_action_type = Credit,
         tx_amount = Finite (10 ^ 16), tx_balance_after = Finite (10 ^ 16),
         tx_date_time = ''2024-01-01T10:00:00''\<rparr>],
      transactions_seq = 1\<rparr>"
  using fround_1e16
  by (simp add: db_1e16_def db_opened_eq db_eval)

lemma db_large_eq:
  "db_large =
     \<lparr>customer = [\<lparr>account_no = 1, name = ''John Doe'', mobile_no = ''1234567890'',
         email = ''john@example.com'', pin_hash = 4, action_type = ''Savings'',
         balance = Some (Finite (10 ^ 16))\<rparr>],
      customer_seq = 1,
      transactions = [\<lparr>tx_id = 1, tx_account_no = 1, tx_action_type = Credit,
         tx_amount = Finite (10 ^ 16), tx_balance_after = Finite (10 ^ 16),
         tx_date_time = ''2024-01-01T10:00:00''\<rparr>,
        \<lparr>tx_id = 2, tx_account_no = 1, tx_action_type = Credit,
         tx_amount = Finite 1, tx_balance_after = Finite (10 ^ 16),
         tx_date_time = ''2024-01-01T10:00:01''\<rparr>],
      transactions_seq = 2\<rparr>"
  using fround_1e16_plus_1
  by (simp add: db_large_def db_1e16_eq db_eval)

lemma db_large_spent_eq:
  "db_large_spent =
     \<lparr>customer = [\<lparr>account_no = 1, name = ''John Doe'', mobile_no = ''1234567890'',
         email = ''john@example.com'', pin_hash = 4, action_type = ''Savings'',
         balance = Some (Finite 1)\<rparr>],
      customer_seq = 1,
      transactions = [\<lparr>tx_id = 1, tx_account_no = 1, tx_action_type = Credit,
         tx_amount = Finite (10 ^ 16), tx_balance_after = Finite (10 ^ 16),
         tx_date_time = ''2024-01-01T10:00:00''\<rparr>,
        \<lparr>tx_id = 2, tx_account_no = 1, tx_action_type = Credit,
         tx_amount = Finite 1, tx_balance_after = Finite (10 ^ 16),
         tx_date_time = ''2024-01-01T10:00:01''\<rparr>,
        \<lparr>tx_id = 3, tx_account_no = 1, tx_action_type = Debit,
         tx_amount = Finite (10 ^ 16), tx_balance_after = Finite 0,
         tx_date_time = ''2024-01-01T10:00:02''\<rparr>,
        \<lparr>tx_id = 4, tx_account_no = 1, tx_action_type = Credit,
         tx_amount = Finite 1, tx_balance_after = Finite 1,
         tx_date_time = ''2024-01-01T10:00:03''\<rparr>],
      transactions_seq = 4\<rparr>"
  using fround_0 fround_1
  by (simp add: db_large_spent_def db_large_eq db_eval)

lemma db_tenths_eq:
  "db_tenths =
     \<lparr>customer = [\<lparr>account_no = 1, name = ''John Doe'', mobile_no = ''1234567890'',
         email = ''john@example.com'', pin_hash = 4, action_type = ''Savings'',
         balance = Some (Finite (5404319552844596 / 2 ^ 54))\<rparr>],
      customer_seq = 1,
      transactions = [\<lparr>tx_id = 1, tx_account_no = 1, tx_action_type = Credit,
         tx_amount = Finite (3602879701896397 / 2 ^ 55),
         tx_balance_after = Finite (3602879701896397 / 2 ^ 55),
         tx_date_time = ''2024-01-01T10:00:00''\<rparr>,
        \<lparr>tx_id = 2, tx_account_no = 1, tx_action_type = Credit,
         tx_amount = Finite (3602879701896397 / 2 ^ 54),
         tx_balance_after = Finite (5404319552844596 / 2 ^ 54),
         tx_date_time = ''2024-01-01T10:00:01''\<rparr>],
      transactions_seq = 2\<rparr>"
  using fround_tenth fround_two_tenths fround_tenth_again fround_tenth_plus_two_tenths
  by (simp add: db_tenths_def db_opened_eq db_eval)

lemma reachable_examples:
  "reachable example_digest db_opened"
  "reachable example_digest db_deposited"
  "reachable example_digest db_withdrawn"
  "reachable example_digest db_1e16"
  "reachable example_digest db_large"
  "reachable example_digest db_large_spent"
  "reachable example_digest db_tenths"
  unfolding reachable_def db_opened_def db_deposited_def db_withdrawn_def db_1e16_def
    db_large_def db_large_spent_def db_tenths_def
  by (intro steps_create steps_deposit steps_withdraw steps_refl)+

subsection \<open>Lookups after a commit\<close>

lemma find_map_key:
  assumes "\<And>c. k (f c) = k c"
  shows "find (\<lambda>c. k c = a) (map f xs) = map_option f (find (\<lambda>c. k c = a) xs)"
  using assms by (induction xs) auto

lemma select_customer_committed:
  "select_customer (committed s a act x nb dt) a' =
     map_option (\<lambda>c. if account_no c = a then c\<lparr>balance := Some nb\<rparr> else c)
       (select_customer s a')"
  unfolding select_customer_def committed_def
  by (simp add: find_map_key [where k = account_no])

lemma get_balance_committed:
  "select_customer s a = Some c \<Longrightarrow> get_balance (committed s a act x nb dt) a = Some nb"
  by (simp add: get_balance_def select_customer_committed select_customer_SomeD)

lemma select_other_committed:
  "a' \<noteq> a \<Longrightarrow> select_customer (committed s a act x nb dt) a' = select_customer s a'"
proof (cases "select_customer s a'")
  case None
  then show ?thesis by (simp add: select_customer_committed)
next
  case (Some c)
  assume "a' \<noteq> a"
  moreover from Some have "account_no c = a'" by (simp add: select_customer_SomeD)
  ultimately show ?thesis using Some by (simp add: select_customer_committed)
qed

lemma other_fields_committed:
  "map (\<lambda>c. c\<lparr>balance := None\<rparr>) (customer (committed s a act x nb dt)) =
   map (\<lambda>c. c\<lparr>balance := None\<rparr>) (customer s)"
  by (simp add: committed_def comp_def if_distrib [of "\<lambda>c. c\<lparr>balance := None\<rparr>"])

lemma flt_zero_positive: "flt (Finite 0) x \<Longrightarrow> \<not> fle x (Finite 0) \<and> x \<noteq> NaN"
  by (cases x) auto

lemma reachable_balance:
  assumes "reachable H s" and "select_customer s a = Some c"
  obtains b where "balance c = Some b" and "fle (Finite 0) b"
proof -
  from assms(1) have "balances_nonneg s" by (rule balances_nonneg_reachable)
  moreover from assms(2) have "c \<in> set (customer s)" by (simp add: select_customer_SomeD)
  ultimately show ?thesis using that by (auto simp: balances_nonneg_def)
qed

subsection \<open>Accounts and credentials\<close>








subsection \<open>The history\<close>

lemma order_by_date_time_desc_props:
  "mset (order_by_date_time_desc rows) = mset rows"
  "sorted (rev (map tx_date_time (order_by_date_time_desc rows)))"
  by (simp_all add: order_by_date_time_desc_def rev_map [symmetric])

lemma history_newest:
  "get_transaction_history db_withdrawn 1 (Some 1) =
     Inr [\<lparr>h_id = 2, h_action_type = Debit, h_amount = Finite 200, h_balance_after = Finite 800,
       h_date_time = ''2024-01-01T10:00:01.500000''\<rparr>]"
  by (simp add: get_transaction_history_def sql_limit_def order_by_date_time_desc_def
      db_withdrawn_eq history_of_def less_eq_char_def in_int64_def)

text \<open>Two records with the same \<open>date_time\<close> come in the order of the table.\<close>

lemma order_by_date_time_desc_tie:
  "map tx_id (order_by_date_time_desc
     [\<lparr>tx_id = 1, tx_account_no = 1, tx_action_type = Credit, tx_amount = Finite 5,
        tx_balance_after = Finite 5, tx_date_time = ''2024-01-01T10:00:00''\<rparr>,
      \<lparr>tx_id = 2, tx_account_no = 1, tx_action_type = Credit, tx_amount = Finite 5,
        tx_balance_after = Finite 10, tx_date_time = ''2024-01-01T10:00:00''\<rparr>,
      \<lparr>tx_id = 3, tx_account_no = 1, tx_action_type = Credit, tx_amount = Finite 5,
        tx_balance_after = Finite 15, tx_date_time = ''2024-01-01T10:00:01''\<rparr>]) = [3, 1, 2]"
  by (simp add: order_by_date_time_desc_def less_eq_char_def)

section \<open>The claims\<close>

text \<open>
  C1 (as amended). In every reachable database, replaying the records of an account in
  creation order, from \<open>0.00\<close> and with the float addition and subtraction the code itself
  performs, gives exactly the stored balance, which is also what \<open>get_balance\<close> returns.
\<close>

theorem C1_replay_reproduces_balance:
  assumes "reachable H s" and "select_customer s a = Some c"
  shows "balance c = Some (replay (account_log s a))
    \<and> get_balance s a = Some (replay (account_log s a))"
proof -
  from assms(2) have c: "c \<in> set (customer s)" "account_no c = a"
    by (simp_all add: select_customer_SomeD)
  from assms(1) have "balances_replayed s" by (rule balances_replayed_reachable)
  with c have "balance c = Some (replay (filter (\<lambda>t. tx_account_no t = a) (transactions s)))"
    by (auto simp: balances_replayed_def)
  with assms show ?thesis
    by (simp add: account_log_reachable get_balance_def)
qed

theorem C1_replay_witness:
  "reachable example_digest db_withdrawn
   \<and> get_balance db_withdrawn 1 = Some (replay (account_log db_withdrawn 1))
   \<and> get_balance db_withdrawn 1 = Some (Finite 800)"
proof -
  have r: "reachable example_digest db_withdrawn" by (rule reachable_examples)
  have c: "select_customer db_withdrawn 1 = Some (hd (customer db_withdrawn))"
    by (simp add: db_withdrawn_eq select_customer_def)
  have "get_balance db_withdrawn 1 = Some (Finite 800)"
    by (simp add: db_withdrawn_eq get_balance_def select_customer_def)
  with r C1_replay_reproduces_balance [OF r c] show ?thesis by simp
qed

text \<open>
  C1 as stated fails. After \<open>deposit(1, 1e16)\<close>, \<open>deposit(1, 1.0)\<close>, \<open>withdraw(1, 1e16)\<close> and
  \<open>deposit(1, 1.0)\<close> on a new account the stored balance is \<open>1.0\<close> (the first \<open>1.0\<close> is
  lost in \<open>1e16 + 1.0 = 1e16\<close>). The credits minus the debits are \<open>2\<close> in exact arithmetic
  and \<open>0.0\<close> when each sum is taken in floats.
\<close>

theorem C1_conservation_counterexample:
  "get_balance db_large_spent 1 = Some (Finite 1)
   \<and> conservation_total (account_log db_large_spent 1) = Some 2
   \<and> float_total (account_log db_large_spent 1) = Finite 0
   \<and> get_balance db_large_spent 1
        \<noteq> map_option Finite (conservation_total (account_log db_large_spent 1))
   \<and> get_balance db_large_spent 1 \<noteq> Some (float_total (account_log db_large_spent 1))"
  using fround_0 fround_1e16 fround_1e16_plus_1
  by (simp add: db_large_spent_eq get_balance_def select_customer_def account_log_def
      conservation_total_def float_total_def amounts_of_def exact_sum_def fsub_def)

text \<open>
  C2. A withdrawal of more than the balance returns \<open>None\<close> (the only failure value the code
  has) and leaves the database as it was; and in every reachable database every balance is
  present and not negative. In a reachable database the refusal is the one of the comparison
  \<open>result[0] < amount\<close>.
\<close>

theorem C2_no_overdraft:
  "(select_customer s a = Some c \<and> balance c = Some b \<and> float_lt_num b amount
      \<longrightarrow> withdraw s dt a amount = (None, s))
   \<and> (reachable H s' \<longrightarrow>
        (\<forall>c'\<in>set (customer s'). \<exists>b'. balance c' = Some b' \<and> fle (Finite 0) b'))
   \<and> (reachable H s \<and> in_int64 a \<and> select_customer s a = Some c \<and> balance c = Some b
        \<and> float_lt_num b amount
      \<longrightarrow> withdraw_run s dt a amount = (Inl Balance_Below_Amount, s))"
proof (intro conjI impI)
  assume "select_customer s a = Some c \<and> balance c = Some b \<and> float_lt_num b amount"
  then show "withdraw s dt a amount = (None, s)"
    by (simp add: withdraw_def withdraw_run_def returned_def)
next
  assume "reachable H s'"
  then have "balances_nonneg s'" by (rule balances_nonneg_reachable)
  then show "\<forall>c'\<in>set (customer s'). \<exists>b'. balance c' = Some b' \<and> fle (Finite 0) b'"
    by (simp add: balances_nonneg_def)
next
  assume h: "reachable H s \<and> in_int64 a \<and> select_customer s a = Some c \<and> balance c = Some b
      \<and> float_lt_num b amount"
  then obtain b' where "balance c = Some b'" and "fle (Finite 0) b'"
    using reachable_balance [of H s a c] by blast
  with h have "fle (Finite 0) b" by simp
  with h have "\<not> num_le_zero amount" by (simp add: above_balance_positive)
  with h show "withdraw_run s dt a amount = (Inl Balance_Below_Amount, s)"
    by (simp add: withdraw_run_def)
qed

theorem C2_no_overdraft_witness:
  "select_customer db_withdrawn 1 = Some (hd (customer db_withdrawn))
   \<and> balance (hd (customer db_withdrawn)) = Some (Finite 800)
   \<and> float_lt_num (Finite 800) (IntNum 10000)
   \<and> withdraw db_withdrawn ''2024-01-01T10:00:02'' 1 (IntNum 10000) = (None, db_withdrawn)
   \<and> reachable example_digest db_withdrawn
   \<and> fle (Finite 0) (Finite 800)
   \<and> in_int64 1
   \<and> withdraw_run db_withdrawn ''2024-01-01T10:00:02'' 1 (IntNum 10000)
        = (Inl Balance_Below_Amount, db_withdrawn)"
proof -
  have c: "select_customer db_withdrawn 1 = Some (hd (customer db_withdrawn))"
    and b: "balance (hd (customer db_withdrawn)) = Some (Finite 800)"
    by (simp_all add: db_withdrawn_eq select_customer_def)
  have r: "reachable example_digest db_withdrawn" by (rule reachable_examples)
  have a: "in_int64 1" by (simp add: in_int64_def)
  have lt: "float_lt_num (Finite 800) (IntNum 10000)" by simp
  from c b r a lt
    C2_no_overdraft [of db_withdrawn 1 "hd (customer db_withdrawn)" "Finite 800" "IntNum 10000"
      "''2024-01-01T10:00:02''" example_digest db_withdrawn]
  show ?thesis by simp
qed

text \<open>
  C3 (as amended). In a reachable database, take an existing account (its number in the 64-bit
  range of the key column) and an amount \<open>> 0\<close> that the \<open>REAL\<close> column can hold: any float but
  NaN, any int below \<open>2^63\<close>; \<open>x\<close> is the float the column makes of it (the amount itself, or
  the float nearest to the int). The deposit returns the float sum of the prior balance and
  \<open>x\<close>, which for finite operands is the binary64 number nearest to the exact sum and need not
  be the exact sum. It makes that the stored balance and appends exactly one \<open>Credit\<close> record
  with the amount \<open>x\<close> and that \<open>balance_after\<close>. No other column of \<open>customer\<close> changes, the
  rows of all other accounts are as before, and no account is added.
\<close>

theorem C3_deposit:
  assumes "reachable H s" and "in_int64 a" and "a \<in> account_no ` set (customer s)"
    and "\<not> num_le_zero amount" and "bind_num amount = Some x"
  shows "\<exists>c b s'. select_customer s a = Some c \<and> balance c = Some b
    \<and> deposit s dt a amount = (Some (fadd b x), s')
    \<and> select_customer s' a = Some (c\<lparr>balance := Some (fadd b x)\<rparr>)
    \<and> transactions s' = transactions s @
        [\<lparr>tx_id = next_rowid (transactions_seq s) (map tx_id (transactions s)),
          tx_account_no = a, tx_action_type = Credit, tx_amount = x,
          tx_balance_after = fadd b x, tx_date_time = dt\<rparr>]
    \<and> map (\<lambda>c. c\<lparr>balance := None\<rparr>) (customer s') = map (\<lambda>c. c\<lparr>balance := None\<rparr>) (customer s)
    \<and> (\<forall>a'. a' \<noteq> a \<longrightarrow> select_customer s' a' = select_customer s a')
    \<and> customer_seq s' = customer_seq s
    \<and> (\<forall>y. amount = FloatNum y \<longrightarrow> x = y)
    \<and> (\<forall>i. amount = IntNum i \<longrightarrow> x = fround (of_int i))
    \<and> (\<forall>bq xq. b = Finite bq \<and> x = Finite xq \<longrightarrow> fadd b x = fround (bq + xq))
    \<and> (\<forall>bq xq v d. b = Finite bq \<and> x = Finite xq \<and> fadd b x = Finite v \<and> binary64 d
          \<longrightarrow> binary64 v \<and> \<bar>v - (bq + xq)\<bar> \<le> \<bar>d - (bq + xq)\<bar>)"
proof -
  from assms(3) obtain c where c: "select_customer s a = Some c"
    by (cases "select_customer s a") (auto simp: select_customer_None_iff)
  from assms(1) c obtain b where b: "balance c = Some b" and nonneg: "fle (Finite 0) b"
    by (rule reachable_balance)
  from assms(5) have conv: "float_of_num amount = Some x" by (rule bound_num_converts)
  from assms(5) have "x \<noteq> NaN" by (rule bind_num_not_NaN)
  with assms(4) conv have "fle (Finite 0) x" by (rule num_positive)
  with nonneg have "fle (Finite 0) (fadd b x)" by (rule fadd_nonneg2)
  then have "fadd b x \<noteq> NaN" by (rule fle_not_NaN)
  with assms(2) c b assms(4) conv assms(5) have "deposit_run s dt a amount =
      (Inr (fadd b x), committed s a Credit x (fadd b x) dt)"
    by (rule deposit_run_success)
  then have dep: "deposit s dt a amount
      = (Some (fadd b x), committed s a Credit x (fadd b x) dt)"
    by (simp add: deposit_def returned_def)
  let ?s' = "committed s a Credit x (fadd b x) dt"
  have "select_customer ?s' a = Some (c\<lparr>balance := Some (fadd b x)\<rparr>)"
    using c by (simp add: select_customer_committed select_customer_SomeD)
  moreover have "transactions ?s' = transactions s @
        [\<lparr>tx_id = next_rowid (transactions_seq s) (map tx_id (transactions s)),
          tx_account_no = a, tx_action_type = Credit, tx_amount = x,
          tx_balance_after = fadd b x, tx_date_time = dt\<rparr>]"
    and "customer_seq ?s' = customer_seq s"
    by (simp_all add: committed_def)
  moreover have "map (\<lambda>c. c\<lparr>balance := None\<rparr>) (customer ?s')
      = map (\<lambda>c. c\<lparr>balance := None\<rparr>) (customer s)"
    by (rule other_fields_committed)
  moreover have "\<forall>a'. a' \<noteq> a \<longrightarrow> select_customer ?s' a' = select_customer s a'"
    by (simp add: select_other_committed)
  moreover have "\<forall>y. amount = FloatNum y \<longrightarrow> x = y"
    using assms(5) by (auto simp: bind_real_def split: if_splits)
  moreover have "\<forall>i. amount = IntNum i \<longrightarrow> x = fround (of_int i)"
    using assms(5) by (auto split: if_splits)
  moreover have "\<forall>bq xq. b = Finite bq \<and> x = Finite xq \<longrightarrow> fadd b x = fround (bq + xq)"
    by simp
  moreover have "\<forall>bq xq v d. b = Finite bq \<and> x = Finite xq \<and> fadd b x = Finite v \<and> binary64 d
          \<longrightarrow> binary64 v \<and> \<bar>v - (bq + xq)\<bar> \<le> \<bar>d - (bq + xq)\<bar>"
    by (auto simp: binary64_fround fround_nearest)
  ultimately show ?thesis using c b dep by blast
qed

theorem C3_deposit_witness:
  "reachable example_digest db_opened \<and> in_int64 1
   \<and> 1 \<in> account_no ` set (customer db_opened)
   \<and> \<not> num_le_zero (IntNum 1000) \<and> bind_num (IntNum 1000) = Some (Finite 1000)
   \<and> get_balance db_opened 1 = Some (Finite 0)
   \<and> deposit db_opened ''2024-01-01T10:00:00'' 1 (IntNum 1000) = (Some (Finite 1000), db_deposited)
   \<and> get_balance db_deposited 1 = Some (Finite 1000)"
proof -
  have r: "reachable example_digest db_opened" by (rule reachable_examples)
  have i: "in_int64 1" by (simp add: in_int64_def)
  have a: "1 \<in> account_no ` set (customer db_opened)" by (simp add: db_opened_eq)
  have x: "\<not> num_le_zero (IntNum 1000)" by simp
  have y: "bind_num (IntNum 1000) = Some (Finite 1000)" by (simp add: in_int64_def fround_1000)
  have b: "get_balance db_opened 1 = Some (Finite 0)"
    by (simp add: db_opened_eq get_balance_def select_customer_def)
  from C3_deposit [OF r i a x y, of "''2024-01-01T10:00:00''"] obtain c b' s' where
    "select_customer db_opened 1 = Some c" "balance c = Some b'"
    "deposit db_opened ''2024-01-01T10:00:00'' 1 (IntNum 1000) = (Some (fadd b' (Finite 1000)), s')"
    "select_customer s' 1 = Some (c\<lparr>balance := Some (fadd b' (Finite 1000))\<rparr>)"
    by blast
  with b have "deposit db_opened ''2024-01-01T10:00:00'' 1 (IntNum 1000)
      = (Some (Finite 1000), s')" and "get_balance s' 1 = Some (Finite 1000)"
    by (simp_all add: get_balance_def fround_1000)
  then have "deposit db_opened ''2024-01-01T10:00:00'' 1 (IntNum 1000)
      = (Some (Finite 1000), db_deposited)" and "get_balance db_deposited 1 = Some (Finite 1000)"
    by (simp_all add: db_deposited_def)
  with r i a x y b show ?thesis by simp
qed

text \<open>
  C3 as stated fails. A deposit of \<open>1.0\<close> into the account with the balance \<open>1e16\<close> succeeds
  and returns \<open>1e16\<close>, which is not the prior balance plus the amount; and a deposit of the int
  \<open>2^63\<close>, an amount \<open>> 0\<close>, into an existing account returns \<open>None\<close> and changes nothing (the
  \<open>INSERT\<close> cannot bind it).
\<close>

theorem C3_deposit_counterexample:
  "get_balance db_1e16 1 = Some (Finite (10 ^ 16))
   \<and> deposit db_1e16 ''2024-01-01T10:00:01'' 1 (FloatNum (Finite 1))
        = (Some (Finite (10 ^ 16)), db_large)
   \<and> get_balance db_large 1 = Some (Finite (10 ^ 16))
   \<and> (10 ^ 16 + 1 :: rat) \<noteq> 10 ^ 16
   \<and> 1 \<in> account_no ` set (customer db_opened)
   \<and> \<not> num_le_zero (IntNum (2 ^ 63))
   \<and> deposit db_opened ''2024-01-01T10:00:00'' 1 (IntNum (2 ^ 63)) = (None, db_opened)"
proof -
  have "fst (deposit db_1e16 ''2024-01-01T10:00:01'' 1 (FloatNum (Finite 1)))
      = Some (Finite (10 ^ 16))"
    using fround_1e16_plus_1 by (simp add: db_1e16_eq db_eval)
  then have "deposit db_1e16 ''2024-01-01T10:00:01'' 1 (FloatNum (Finite 1))
        = (Some (Finite (10 ^ 16)), db_large)"
    by (simp add: db_large_def prod_eq_iff)
  moreover have "deposit db_opened ''2024-01-01T10:00:00'' 1 (IntNum (2 ^ 63)) = (None, db_opened)"
  proof (cases rule: deposit_cases [where s = db_opened and dt = "''2024-01-01T10:00:00''"
        and a = 1 and amount = "IntNum (2 ^ 63)"])
    case fail
    then show ?thesis .
  next
    case (commit c b x)
    from commit(6) show ?thesis by (simp add: in_int64_def)
  qed
  ultimately show ?thesis
    by (simp add: db_1e16_eq db_large_eq db_opened_eq get_balance_def select_customer_def)
qed

text \<open>
  C4 (as amended). For an account number that is not in \<open>customer\<close>, \<open>deposit\<close> and \<open>withdraw\<close>
  are refused (they return \<open>None\<close>) whatever the amount, and the database is as before. The
  refusal is the one of the lookup that finds no row when the account number is in the 64-bit
  range and the amount is not \<open><= 0\<close>.
\<close>

theorem C4_unknown_account:
  assumes "a \<notin> account_no ` set (customer s)"
  shows "deposit s dt a amount = (None, s) \<and> withdraw s dt a amount = (None, s)
    \<and> (\<exists>f. deposit_run s dt a amount = (Inl f, s))
    \<and> (\<exists>f. withdraw_run s dt a amount = (Inl f, s))
    \<and> (in_int64 a \<and> \<not> num_le_zero amount \<longrightarrow>
          deposit_run s dt a amount = (Inl No_Account_Row, s)
          \<and> withdraw_run s dt a amount = (Inl No_Account_Row, s))"
proof -
  from assms have "select_customer s a = None" by (simp add: select_customer_None_iff)
  then show ?thesis
    by (simp add: deposit_def withdraw_def deposit_run_def withdraw_run_def returned_def)
qed

theorem C4_unknown_account_witness:
  "99 \<notin> account_no ` set (customer db_withdrawn)
   \<and> in_int64 99 \<and> \<not> num_le_zero (IntNum 50)
   \<and> deposit db_withdrawn ''2024-01-01T10:00:02'' 99 (IntNum 50) = (None, db_withdrawn)
   \<and> withdraw db_withdrawn ''2024-01-01T10:00:02'' 99 (IntNum 50) = (None, db_withdrawn)
   \<and> deposit_run db_withdrawn ''2024-01-01T10:00:02'' 99 (IntNum 50)
        = (Inl No_Account_Row, db_withdrawn)
   \<and> withdraw_run db_withdrawn ''2024-01-01T10:00:02'' 99 (IntNum 50)
        = (Inl No_Account_Row, db_withdrawn)"
proof -
  have a: "99 \<notin> account_no ` set (customer db_withdrawn)" by (simp add: db_withdrawn_eq)
  have i: "in_int64 99" by (simp add: in_int64_def)
  have x: "\<not> num_le_zero (IntNum 50)" by simp
  from a i x C4_unknown_account [OF a, of "''2024-01-01T10:00:02''" "IntNum 50"]
  show ?thesis by simp
qed

text \<open>
  C4 as stated fails for an amount \<open><= 0\<close>: \<open>deposit(99, -5)\<close> and \<open>withdraw(99, -5)\<close> on a
  database without account 99 are refused by the test of the amount, before any lookup.
\<close>

theorem C4_amount_checked_first_counterexample:
  "99 \<notin> account_no ` set (customer db_withdrawn)
   \<and> deposit_run db_withdrawn ''2024-01-01T10:00:02'' 99 (IntNum (- 5))
        = (Inl Amount_Not_Positive, db_withdrawn)
   \<and> withdraw_run db_withdrawn ''2024-01-01T10:00:02'' 99 (IntNum (- 5))
        = (Inl Amount_Not_Positive, db_withdrawn)
   \<and> Amount_Not_Positive \<noteq> No_Account_Row"
  by (simp add: db_withdrawn_eq deposit_run_def withdraw_run_def)

text \<open>
  C5. For an amount \<open>\<le> 0\<close>, \<open>deposit\<close> and \<open>withdraw\<close> return \<open>None\<close> and the database is as
  before, whatever the database and the account number are: the result does not depend on
  them, so nothing of the database is read. The refusal is the one of the test of the amount.
\<close>

theorem C5_invalid_amount:
  assumes "num_le_zero amount"
  shows "deposit s dt a amount = (None, s) \<and> withdraw s dt a amount = (None, s)
    \<and> deposit_run s dt a amount = (Inl Amount_Not_Positive, s)
    \<and> withdraw_run s dt a amount = (Inl Amount_Not_Positive, s)"
  using assms
  by (simp add: deposit_def withdraw_def deposit_run_def withdraw_run_def returned_def)

theorem C5_invalid_amount_witness:
  "num_le_zero (FloatNum (Finite (- 5)))
   \<and> deposit db_withdrawn ''2024-01-01T10:00:02'' 1 (FloatNum (Finite (- 5)))
        = (None, db_withdrawn)
   \<and> withdraw db_withdrawn ''2024-01-01T10:00:02'' 1 (FloatNum (Finite (- 5)))
        = (None, db_withdrawn)
   \<and> num_le_zero (IntNum 0)
   \<and> deposit db_withdrawn ''2024-01-01T10:00:02'' 1 (IntNum 0) = (None, db_withdrawn)"
proof -
  have x: "num_le_zero (FloatNum (Finite (- 5)))" and y: "num_le_zero (IntNum 0)" by simp_all
  from x y C5_invalid_amount [OF x] C5_invalid_amount [OF y] show ?thesis by simp
qed






text \<open>
  C8 (as amended). For an account number of the 64-bit range, the history consists of records
  of that account only, newest first by \<open>date_time\<close> (compared as text): there is an ordering
  \<open>rows\<close> of all the account's records, descending in \<open>date_time\<close>, of which the call returns
  the first \<open>limit\<close> when \<open>0 \<le> limit < 2^63\<close> (so at most \<open>limit\<close> entries) and the first 10
  when the limit is left out. The method returns no database: it changes nothing.
\<close>

theorem C8_history:
  assumes "in_int64 a"
  shows "\<exists>rows. mset rows = mset (filter (\<lambda>t. tx_account_no t = a) (transactions s))
     \<and> sorted (rev (map tx_date_time rows))
     \<and> get_transaction_history s a None = Inr (map history_of (take 10 rows))
     \<and> (\<forall>n. 0 \<le> n \<and> n < 2 ^ 63 \<longrightarrow>
            (\<exists>h. get_transaction_history s a (Some n) = Inr h
               \<and> h = map history_of (take (nat n) rows) \<and> length h \<le> nat n))"
proof (intro exI conjI allI impI)
  let ?rows = "order_by_date_time_desc (filter (\<lambda>t. tx_account_no t = a) (transactions s))"
  show "mset ?rows = mset (filter (\<lambda>t. tx_account_no t = a) (transactions s))"
    by (rule order_by_date_time_desc_props)
  show "sorted (rev (map tx_date_time ?rows))"
    by (rule order_by_date_time_desc_props)
  show "get_transaction_history s a None = Inr (map history_of (take 10 ?rows))"
    using assms by (simp add: get_transaction_history_def sql_limit_def in_int64_def)
  fix n :: int assume n: "0 \<le> n \<and> n < 2 ^ 63"
  then have "in_int64 n" by (simp add: in_int64_def)
  with n assms
  show "get_transaction_history s a (Some n) = Inr (map history_of (take (nat n) ?rows))"
    by (simp add: get_transaction_history_def sql_limit_def)
  show "map history_of (take (nat n) ?rows) = map history_of (take (nat n) ?rows)" ..
  show "length (map history_of (take (nat n) ?rows)) \<le> nat n" by simp
qed

theorem C8_history_witness:
  "in_int64 1 \<and> (0::int) \<le> 1 \<and> (1::int) < 2 ^ 63
   \<and> get_transaction_history db_withdrawn 1 (Some 1) =
       Inr [\<lparr>h_id = 2, h_action_type = Debit, h_amount = Finite 200, h_balance_after = Finite 800,
         h_date_time = ''2024-01-01T10:00:01.500000''\<rparr>]
   \<and> (\<exists>h. get_transaction_history db_withdrawn 1 (Some 1) = Inr h \<and> length h \<le> nat 1)
   \<and> (\<exists>h. get_transaction_history db_withdrawn 1 None = Inr h \<and> length h = 2)"
proof -
  have i: "in_int64 1" by (simp add: in_int64_def)
  from C8_history [OF i, of db_withdrawn] obtain rows where
    m: "mset rows = mset (filter (\<lambda>t. tx_account_no t = 1) (transactions db_withdrawn))"
    and d: "get_transaction_history db_withdrawn 1 None = Inr (map history_of (take 10 rows))"
    and pos: "\<forall>n. 0 \<le> n \<and> n < 2 ^ 63 \<longrightarrow>
            (\<exists>h. get_transaction_history db_withdrawn 1 (Some n) = Inr h
               \<and> h = map history_of (take (nat n) rows) \<and> length h \<le> nat n)"
    by blast
  from pos have "\<exists>h. get_transaction_history db_withdrawn 1 (Some 1) = Inr h \<and> length h \<le> nat 1"
    by simp
  moreover have "length rows = 2"
  proof -
    have "length rows = length (filter (\<lambda>t. tx_account_no t = 1) (transactions db_withdrawn))"
      using arg_cong [OF m, of size] by (simp only: size_mset)
    then show ?thesis by (simp add: db_withdrawn_eq)
  qed
  with d have "\<exists>h. get_transaction_history db_withdrawn 1 None = Inr h \<and> length h = 2"
    by simp
  ultimately show ?thesis using i by (simp add: history_newest)
qed

text \<open>
  C8 as stated fails for a limit or an account number outside the 64-bit range:
  \<open>get_transaction_history(1, 2**63)\<close> and \<open>get_transaction_history(2**63)\<close> return no list,
  they raise \<open>OverflowError\<close> (the value cannot be bound, and the method has no handler).
\<close>

theorem C8_unbound_limit_counterexample:
  "get_transaction_history db_withdrawn 1 (Some (2 ^ 63)) = Inl OverflowError
   \<and> get_transaction_history db_withdrawn (2 ^ 63) None = Inl OverflowError"
  by (simp add: get_transaction_history_def in_int64_def)

text \<open>
  C9 (as amended). Amounts and balances are binary64 floats (the columns are \<open>REAL\<close>). On a
  finite balance \<open>b\<close> and a finite float amount \<open>x > 0\<close>, a deposit returns \<open>b + x\<close> rounded to
  binary64 and stores it as the balance, with its record; a withdrawal is refused, leaving the
  database as it was, exactly when \<open>b < x\<close>, compared exactly, and otherwise returns and stores
  \<open>b - x\<close> rounded to binary64. Each rounding gives a binary64 number, one nearest to the
  exact result: at most a relative \<open>2^-53\<close> (or an absolute \<open>2^-1075\<close>) away from it, and no
  other binary64 number is closer.
\<close>

theorem C9_binary64_arithmetic:
  assumes "in_int64 a" and "select_customer s a = Some c" and "balance c = Some (Finite b)"
    and "0 < x"
  shows "deposit s dt a (FloatNum (Finite x)) =
      (Some (fround (b + x)), committed s a Credit (Finite x) (fround (b + x)) dt)
    \<and> select_customer (committed s a Credit (Finite x) (fround (b + x)) dt) a
        = Some (c\<lparr>balance := Some (fround (b + x))\<rparr>)
    \<and> (b < x \<longrightarrow> withdraw s dt a (FloatNum (Finite x)) = (None, s))
    \<and> (x \<le> b \<longrightarrow>
          withdraw s dt a (FloatNum (Finite x)) =
            (Some (fround (b - x)), committed s a Debit (Finite x) (fround (b - x)) dt)
          \<and> select_customer (committed s a Debit (Finite x) (fround (b - x)) dt) a
              = Some (c\<lparr>balance := Some (fround (b - x))\<rparr>))
    \<and> (\<forall>q v. fround q = Finite v \<longrightarrow>
          binary64 v
          \<and> \<bar>v - q\<bar> \<le> max (\<bar>q\<bar> / 2 ^ 53) (1 / 2 ^ 1075)
          \<and> (\<forall>d. binary64 d \<longrightarrow> \<bar>v - q\<bar> \<le> \<bar>d - q\<bar>))"
proof (intro conjI allI impI)
  from assms(4) have x: "\<not> num_le_zero (FloatNum (Finite x))" by simp
  have conv: "float_of_num (FloatNum (Finite x)) = Some (Finite x)"
    and bound: "bind_num (FloatNum (Finite x)) = Some (Finite x)"
    by (simp_all add: bind_real_def)
  have "fadd (Finite b) (Finite x) \<noteq> NaN" by (simp add: fround_not_NaN)
  with assms(1,2,3) x conv bound
  have "deposit_run s dt a (FloatNum (Finite x)) = (Inr (fadd (Finite b) (Finite x)),
      committed s a Credit (Finite x) (fadd (Finite b) (Finite x)) dt)"
    by (rule deposit_run_success)
  then show "deposit s dt a (FloatNum (Finite x)) =
      (Some (fround (b + x)), committed s a Credit (Finite x) (fround (b + x)) dt)"
    by (simp add: deposit_def returned_def)
  show "select_customer (committed s a Credit (Finite x) (fround (b + x)) dt) a
        = Some (c\<lparr>balance := Some (fround (b + x))\<rparr>)"
    using assms(2) by (simp add: select_customer_committed select_customer_SomeD)
  show "withdraw s dt a (FloatNum (Finite x)) = (None, s)" if "b < x"
    using that assms by (simp add: withdraw_def withdraw_run_def returned_def)
  show "withdraw s dt a (FloatNum (Finite x)) =
      (Some (fround (b - x)), committed s a Debit (Finite x) (fround (b - x)) dt)"
    if "x \<le> b"
  proof -
    from that have nlt: "\<not> float_lt_num (Finite b) (FloatNum (Finite x))" by simp
    have sub: "fsub (Finite b) (Finite x) = fround (b - x)" by (simp add: fsub_def)
    then have "fsub (Finite b) (Finite x) \<noteq> NaN" by (simp add: fround_not_NaN)
    with assms(1,2,3) x nlt conv bound
    have "withdraw_run s dt a (FloatNum (Finite x)) = (Inr (fsub (Finite b) (Finite x)),
        committed s a Debit (Finite x) (fsub (Finite b) (Finite x)) dt)"
      by (rule withdraw_run_success)
    with sub show ?thesis by (simp add: withdraw_def returned_def)
  qed
  show "select_customer (committed s a Debit (Finite x) (fround (b - x)) dt) a
        = Some (c\<lparr>balance := Some (fround (b - x))\<rparr>)"
    using assms(2) by (simp add: select_customer_committed select_customer_SomeD)
  fix q v assume r: "fround q = Finite v"
  then show "binary64 v" by (rule binary64_fround)
  from r show "\<bar>v - q\<bar> \<le> max (\<bar>q\<bar> / 2 ^ 53) (1 / 2 ^ 1075)"
    using fround_binary64 by blast
  show "\<bar>v - q\<bar> \<le> \<bar>d - q\<bar>" if "binary64 d" for d
    using r that by (rule fround_nearest)
qed

theorem C9_binary64_arithmetic_witness:
  "in_int64 1
   \<and> select_customer db_deposited 1 = Some (hd (customer db_deposited))
   \<and> balance (hd (customer db_deposited)) = Some (Finite 1000)
   \<and> fst (deposit db_deposited ''2024-01-01T10:00:01'' 1 (FloatNum (Finite 200)))
        = Some (fround (1000 + 200))
   \<and> (1000::rat) < 10000
   \<and> withdraw db_deposited ''2024-01-01T10:00:01'' 1 (FloatNum (Finite 10000))
        = (None, db_deposited)
   \<and> (200::rat) \<le> 1000
   \<and> fst (withdraw db_deposited ''2024-01-01T10:00:01'' 1 (FloatNum (Finite 200)))
        = Some (fround (1000 - 200))
   \<and> fround (1 / 10) = Finite (3602879701896397 / 2 ^ 55)
   \<and> binary64 (3602879701896397 / 2 ^ 55)
   \<and> \<bar>3602879701896397 / 2 ^ 55 - 1 / 10 :: rat\<bar> \<le> max (\<bar>1 / 10\<bar> / 2 ^ 53) (1 / 2 ^ 1075)"
proof -
  have i: "in_int64 1" by (simp add: in_int64_def)
  have c: "select_customer db_deposited 1 = Some (hd (customer db_deposited))"
    and b: "balance (hd (customer db_deposited)) = Some (Finite 1000)"
    by (simp_all add: db_deposited_eq select_customer_def)
  have "(0::rat) < 200" and "(0::rat) < 10000" by simp_all
  note small = C9_binary64_arithmetic [OF i c b \<open>(0::rat) < 200\<close>, of "''2024-01-01T10:00:01''"]
  note large = C9_binary64_arithmetic [OF i c b \<open>(0::rat) < 10000\<close>, of "''2024-01-01T10:00:01''"]
  from small have "fst (deposit db_deposited ''2024-01-01T10:00:01'' 1 (FloatNum (Finite 200)))
      = Some (fround (1000 + 200))"
    and "fst (withdraw db_deposited ''2024-01-01T10:00:01'' 1 (FloatNum (Finite 200)))
      = Some (fround (1000 - 200))"
    and "binary64 (3602879701896397 / 2 ^ 55)"
    and "\<bar>3602879701896397 / 2 ^ 55 - 1 / 10 :: rat\<bar> \<le> max (\<bar>1 / 10\<bar> / 2 ^ 53) (1 / 2 ^ 1075)"
    using fround_tenth by (simp, simp, blast, blast)
  moreover from large have "withdraw db_deposited ''2024-01-01T10:00:01'' 1
      (FloatNum (Finite 10000)) = (None, db_deposited)"
    by simp
  ultimately show ?thesis using i c b fround_tenth by simp
qed

text \<open>
  C9 as stated fails: after \<open>deposit(1, 0.1)\<close> and \<open>deposit(1, 0.2)\<close> on a new account the
  balance is \<open>0.30000000000000004\<close>, which is neither the exact sum of the two amounts nor the
  float \<open>0.3\<close>.
\<close>

theorem C9_rounding_counterexample:
  "get_balance db_tenths 1 = Some (Finite (5404319552844596 / 2 ^ 54))
   \<and> conservation_total (account_log db_tenths 1) = Some (10808639105689191 / 2 ^ 55)
   \<and> fround (3 / 10) = Finite (5404319552844595 / 2 ^ 54)
   \<and> get_balance db_tenths 1 \<noteq> map_option Finite (conservation_total (account_log db_tenths 1))"
  using fround_three_tenths
  by (simp add: db_tenths_eq get_balance_def select_customer_def account_log_def
      conservation_total_def amounts_of_def exact_sum_def)




end
